theory Spec2Isabelle
  imports Complex_Main "HOL-Library.Word"
begin

text \<open>
  A model of \<open>smwcentral-kaizo-archiver.py\<close>: the naming engine
  (\<open>sanitize_filename\<close>, \<open>get_short_hash\<close>, \<open>format_filename\<close>), the paginator
  (\<open>fetch_all_data\<close>), the fetcher (\<open>download_and_extract_bps\<close>), the patch applier
  (\<open>patch_bps_file\<close>) and the item loop of \<open>main\<close>. An exception is a value: a
  function that may raise returns \<open>exn + 'a\<close>, and a \<open>try\<close> is a case distinction
  on it. The network, the file system, the archive library and the external tool are
  given to each function as the outcomes they produce. Paths are those of
  \<open>posixpath\<close>. The calls of \<open>logger\<close> are recorded for \<open>patch_bps_file\<close>; elsewhere
  they, and the calls of \<open>time.sleep\<close>, are left out: they change no value.
\<close>

unbundle bit_operations_syntax

section \<open>Python values\<close>

text \<open>
  A Python \<open>str\<close> is the list of its code points; \<open>lit\<close> turns a literal of the
  source into one. A \<open>bytes\<close> object is a list of 8-bit words.
\<close>

type_synonym pystr = "nat list"

type_synonym pybytes = "8 word list"

definition lit :: "string \<Rightarrow> pystr" where
  "lit s = map of_char s"

text \<open>
  What \<open>response.json()\<close> returns. A \<open>dict\<close> is the list of its items, in
  insertion order, with pairwise different keys; \<open>map_of\<close> looks a key up.
\<close>

datatype json =
    JNull
  | JBool bool
  | JInt int
  | JFloat rat
  | JStr pystr
  | JArr "json list"
  | JObj "(pystr \<times> json) list"

text \<open>
  The exceptions the program meets, each with the text \<open>str(e)\<close> gives.
  \<open>OtherError\<close> stands for every other class (a \<open>requests\<close> exception, an
  \<open>OSError\<close>, a \<open>ValueError\<close> of the JSON decoder, ...).
\<close>

datatype exn =
    AttributeError pystr
  | TypeError pystr
  | BadZipFile pystr
  | OtherError pystr

fun exn_str :: "exn \<Rightarrow> pystr" where
  "exn_str (AttributeError m) = m"
| "exn_str (TypeError m) = m"
| "exn_str (BadZipFile m) = m"
| "exn_str (OtherError m) = m"

fun type_name :: "json \<Rightarrow> pystr" where
  "type_name JNull = lit ''NoneType''"
| "type_name (JBool _) = lit ''bool''"
| "type_name (JInt _) = lit ''int''"
| "type_name (JFloat _) = lit ''float''"
| "type_name (JStr _) = lit ''str''"
| "type_name (JArr _) = lit ''list''"
| "type_name (JObj _) = lit ''dict''"

definition no_attribute :: "json \<Rightarrow> string \<Rightarrow> exn" where
  "no_attribute v a =
     AttributeError (lit [CHR 0x27] @ type_name v @ lit ''' object has no attribute ''
       @ lit [CHR 0x27] @ lit a @ lit [CHR 0x27])"

text \<open>The truth value of an object, as \<open>if x:\<close>, \<open>while x:\<close> and \<open>not x\<close> take it.\<close>

fun truthy :: "json \<Rightarrow> bool" where
  "truthy JNull = False"
| "truthy (JBool b) = b"
| "truthy (JInt n) = (n \<noteq> 0)"
| "truthy (JFloat x) = (x \<noteq> 0)"
| "truthy (JStr s) = (s \<noteq> [])"
| "truthy (JArr xs) = (xs \<noteq> [])"
| "truthy (JObj kvs) = (kvs \<noteq> [])"

text \<open>\<open>v.get(k, d)\<close>: only a dict has the method.\<close>

fun dict_get :: "json \<Rightarrow> pystr \<Rightarrow> json \<Rightarrow> exn + json" where
  "dict_get (JObj kvs) k d = Inr (case map_of kvs k of None \<Rightarrow> d | Some v \<Rightarrow> v)"
| "dict_get v k d = Inl (no_attribute v ''get'')"

text \<open>
  The elements iterating over an object yields (\<open>for x in v\<close>, \<open>xs.extend(v)\<close>):
  a list gives its elements, a str its characters, a dict its keys; nothing else
  is iterable.
\<close>

fun py_iter :: "json \<Rightarrow> exn + json list" where
  "py_iter (JArr xs) = Inr xs"
| "py_iter (JStr s) = Inr (map (\<lambda>c. JStr [c]) s)"
| "py_iter (JObj kvs) = Inr (map (\<lambda>kv. JStr (fst kv)) kvs)"
| "py_iter v = Inl (TypeError (lit [CHR 0x27] @ type_name v @ lit ''' object is not iterable''))"

text \<open>
  Sequencing of steps that may raise: the first exception ends the computation.
\<close>

fun bind :: "exn + 'a \<Rightarrow> ('a \<Rightarrow> exn + 'b) \<Rightarrow> exn + 'b" where
  "bind (Inl e) f = Inl e"
| "bind (Inr x) f = f x"

text \<open>A list comprehension \<open>[f(x) for x in xs]\<close> whose \<open>f\<close> may raise.\<close>

fun map_exn :: "('a \<Rightarrow> exn + 'b) \<Rightarrow> 'a list \<Rightarrow> exn + 'b list" where
  "map_exn f [] = Inr []"
| "map_exn f (x # xs) = bind (f x) (\<lambda>y. bind (map_exn f xs) (\<lambda>ys. Inr (y # ys)))"

text \<open>\<open>str(n)\<close> of an int.\<close>

fun str_nat :: "nat \<Rightarrow> pystr" where
  "str_nat n = (if n < 10 then [0x30 + n] else str_nat (n div 10) @ [0x30 + n mod 10])"

definition str_int :: "int \<Rightarrow> pystr" where
  "str_int i = (if i < 0 then 0x2D # str_nat (nat (- i)) else str_nat (nat i))"

section \<open>Strings\<close>

text \<open>\<open>str.isspace\<close> of one character, which is also the class \<open>\s\<close> of \<open>re\<close>.\<close>

definition is_space :: "nat \<Rightarrow> bool" where
  "is_space c \<longleftrightarrow>
     (0x09 \<le> c \<and> c \<le> 0x0D) \<or> (0x1C \<le> c \<and> c \<le> 0x20) \<or> c = 0x85 \<or> c = 0xA0
     \<or> c = 0x1680 \<or> (0x2000 \<le> c \<and> c \<le> 0x200A) \<or> c = 0x2028 \<or> c = 0x2029
     \<or> c = 0x202F \<or> c = 0x205F \<or> c = 0x3000"

text \<open>\<open>s.strip()\<close>\<close>

definition strip :: "pystr \<Rightarrow> pystr" where
  "strip s = rev (dropWhile is_space (rev (dropWhile is_space s)))"

text \<open>\<open>s.startswith(t)\<close>, \<open>s.endswith(t)\<close>, \<open>t in s\<close>\<close>

fun startswith :: "pystr \<Rightarrow> pystr \<Rightarrow> bool" where
  "startswith s [] = True"
| "startswith [] (b # t) = False"
| "startswith (a # s) (b # t) = (a = b \<and> startswith s t)"

definition endswith :: "pystr \<Rightarrow> pystr \<Rightarrow> bool" where
  "endswith s t = startswith (rev s) (rev t)"

fun contains :: "pystr \<Rightarrow> pystr \<Rightarrow> bool" where
  "contains [] t = (t = [])"
| "contains (a # s) t = (startswith (a # s) t \<or> contains s t)"

text \<open>
  \<open>s.replace(old, new)\<close>: every occurrence of \<open>old\<close>, found from the left and not
  overlapping an earlier one; an empty \<open>old\<close> matches before every character and at
  the end.
\<close>

function replace_from :: "pystr \<Rightarrow> pystr \<Rightarrow> pystr \<Rightarrow> pystr" where
  "replace_from [] old new = []"
| "replace_from (a # s) old new =
     (if old \<noteq> [] \<and> startswith (a # s) old
      then new @ replace_from (drop (length old) (a # s)) old new
      else a # replace_from s old new)"
  by pat_completeness auto
termination
  by (relation "measure (\<lambda>(s, old, new). length s)") auto

definition replace :: "pystr \<Rightarrow> pystr \<Rightarrow> pystr \<Rightarrow> pystr" where
  "replace s old new =
     (if old = [] then new @ concat (map (\<lambda>a. a # new) s) else replace_from s old new)"

text \<open>\<open>sep.join(parts)\<close> for parts that are strs.\<close>

fun join :: "pystr \<Rightarrow> pystr list \<Rightarrow> pystr" where
  "join sep [] = []"
| "join sep [p] = p"
| "join sep (p # q # ps) = p @ sep @ join sep (q # ps)"

text \<open>
  \<open>s.lower()\<close>, on the letters A to Z. No character outside them has one of
  \<open>.\<close>, \<open>b\<close>, \<open>p\<close>, \<open>s\<close> in its lower case, and the program only asks whether
  the result ends with \<open>.bps\<close>.
\<close>

definition lower_char :: "nat \<Rightarrow> nat" where
  "lower_char c = (if 0x41 \<le> c \<and> c \<le> 0x5A then c + 0x20 else c)"

definition lower :: "pystr \<Rightarrow> pystr" where
  "lower s = map lower_char s"

text \<open>\<open>s.split('/')[-1]\<close>: what follows the last \<open>/\<close>.\<close>

definition split_last :: "nat \<Rightarrow> pystr \<Rightarrow> pystr" where
  "split_last sep s = rev (takeWhile (\<lambda>c. c \<noteq> sep) (rev s))"

section \<open>\<open>os.path\<close> (posixpath)\<close>

definition basename :: "pystr \<Rightarrow> pystr" where
  "basename p = split_last 0x2F p"

definition path_join :: "pystr \<Rightarrow> pystr \<Rightarrow> pystr" where
  "path_join a b =
     (if startswith b [0x2F] then b
      else if a = [] \<or> endswith a [0x2F] then a @ b
      else a @ [0x2F] @ b)"

section \<open>\<open>urllib.parse.unquote\<close>\<close>

fun hexval :: "nat \<Rightarrow> nat option" where
  "hexval c =
     (if 0x30 \<le> c \<and> c \<le> 0x39 then Some (c - 0x30)
      else if 0x41 \<le> c \<and> c \<le> 0x46 then Some (c - 0x37)
      else if 0x61 \<le> c \<and> c \<le> 0x66 then Some (c - 0x57)
      else None)"

text \<open>\<open>unquote_to_bytes\<close> on a run of ASCII characters; the bytes are numbers below 256.\<close>

fun unquote_to_bytes :: "pystr \<Rightarrow> nat list" where
  "unquote_to_bytes [] = []"
| "unquote_to_bytes (c # cs) =
     (if c = 0x25 then
        (case cs of
           h1 # h2 # rest \<Rightarrow>
             (case (hexval h1, hexval h2) of
                (Some a, Some b) \<Rightarrow> (16 * a + b) # unquote_to_bytes rest
              | _ \<Rightarrow> c # unquote_to_bytes cs)
         | _ \<Rightarrow> c # unquote_to_bytes cs)
      else c # unquote_to_bytes cs)"

text \<open>
  \<open>bytes.decode('utf-8', 'replace')\<close>: an ill-formed sequence becomes U+FFFD and
  decoding goes on at the first byte that did not fit.
\<close>

definition cont :: "nat \<Rightarrow> bool" where
  "cont b \<longleftrightarrow> 0x80 \<le> b \<and> b < 0xC0"

definition second3 :: "nat \<Rightarrow> nat \<Rightarrow> bool" where
  "second3 b b2 \<longleftrightarrow> cont b2 \<and> \<not> (if b2 < 0xA0 then b = 0xE0 else b = 0xED)"

definition second4 :: "nat \<Rightarrow> nat \<Rightarrow> bool" where
  "second4 b b2 \<longleftrightarrow> cont b2 \<and> \<not> (if b2 < 0x90 then b = 0xF0 else b = 0xF4)"

fun utf8_decode :: "nat list \<Rightarrow> pystr" where
  "utf8_decode [] = []"
| "utf8_decode (b # bs) =
     (if b < 0x80 then b # utf8_decode bs
      else if b < 0xC2 \<or> 0xF5 \<le> b then 0xFFFD # utf8_decode bs
      else if b < 0xE0 then
        (case bs of
           [] \<Rightarrow> [0xFFFD]
         | b2 # r2 \<Rightarrow>
            if cont b2 then ((b - 0xC0) * 64 + (b2 - 0x80)) # utf8_decode r2
            else 0xFFFD # utf8_decode bs)
      else if b < 0xF0 then
        (case bs of
           [] \<Rightarrow> [0xFFFD]
         | b2 # r2 \<Rightarrow>
            if \<not> second3 b b2 then 0xFFFD # utf8_decode bs
            else
              (case r2 of
                 [] \<Rightarrow> [0xFFFD]
               | b3 # r3 \<Rightarrow>
                  if cont b3
                  then ((b - 0xE0) * 4096 + (b2 - 0x80) * 64 + (b3 - 0x80)) # utf8_decode r3
                  else 0xFFFD # utf8_decode r2))
      else
        (case bs of
           [] \<Rightarrow> [0xFFFD]
         | b2 # r2 \<Rightarrow>
            if \<not> second4 b b2 then 0xFFFD # utf8_decode bs
            else
              (case r2 of
                 [] \<Rightarrow> [0xFFFD]
               | b3 # r3 \<Rightarrow>
                  if \<not> cont b3 then 0xFFFD # utf8_decode r2
                  else
                    (case r3 of
                       [] \<Rightarrow> [0xFFFD]
                     | b4 # r4 \<Rightarrow>
                        if cont b4
                        then ((b - 0xF0) * 262144 + (b2 - 0x80) * 4096 + (b3 - 0x80) * 64
                               + (b4 - 0x80)) # utf8_decode r4
                        else 0xFFFD # utf8_decode r3))))"

text \<open>
  The runs of ASCII characters are decoded, each on its own; the characters between
  them stay. \<open>run\<close> is the ASCII run read so far.
\<close>

fun unquote_runs :: "pystr \<Rightarrow> pystr \<Rightarrow> pystr" where
  "unquote_runs run [] = utf8_decode (unquote_to_bytes run)"
| "unquote_runs run (c # cs) =
     (if c < 0x80 then unquote_runs (run @ [c]) cs
      else utf8_decode (unquote_to_bytes run) @ c # unquote_runs [] cs)"

definition unquote :: "pystr \<Rightarrow> pystr" where
  "unquote s = (if 0x25 \<in> set s then unquote_runs [] s else s)"

section \<open>\<open>hashlib.md5\<close>\<close>

text \<open>
  MD5 as RFC 1321 defines it: the message is padded to whole blocks of 64 bytes, each
  block goes through 64 rounds on four 32-bit words, and \<open>hexdigest()\<close> writes the 16
  bytes of the result as 32 lowercase hexadecimal digits.
\<close>

definition md5_shift :: "nat list" where
  "md5_shift =
     [7, 12, 17, 22, 7, 12, 17, 22, 7, 12, 17, 22, 7, 12, 17, 22,
      5, 9, 14, 20, 5, 9, 14, 20, 5, 9, 14, 20, 5, 9, 14, 20,
      4, 11, 16, 23, 4, 11, 16, 23, 4, 11, 16, 23, 4, 11, 16, 23,
      6, 10, 15, 21, 6, 10, 15, 21, 6, 10, 15, 21, 6, 10, 15, 21]"

definition md5_K :: "32 word list" where
  "md5_K =
     [0xd76aa478, 0xe8c7b756, 0x242070db, 0xc1bdceee, 0xf57c0faf, 0x4787c62a, 0xa8304613, 0xfd469501,
      0x698098d8, 0x8b44f7af, 0xffff5bb1, 0x895cd7be, 0x6b901122, 0xfd987193, 0xa679438e, 0x49b40821,
      0xf61e2562, 0xc040b340, 0x265e5a51, 0xe9b6c7aa, 0xd62f105d, 0x02441453, 0xd8a1e681, 0xe7d3fbc8,
      0x21e1cde6, 0xc33707d6, 0xf4d50d87, 0x455a14ed, 0xa9e3e905, 0xfcefa3f8, 0x676f02d9, 0x8d2a4c8a,
      0xfffa3942, 0x8771f681, 0x6d9d6122, 0xfde5380c, 0xa4beea44, 0x4bdecfa9, 0xf6bb4b60, 0xbebfbc70,
      0x289b7ec6, 0xeaa127fa, 0xd4ef3085, 0x04881d05, 0xd9d4d039, 0xe6db99e5, 0x1fa27cf8, 0xc4ac5665,
      0xf4292244, 0x432aff97, 0xab9423a7, 0xfc93a039, 0x655b59c3, 0x8f0ccc92, 0xffeff47d, 0x85845dd1,
      0x6fa87e4f, 0xfe2ce6e0, 0xa3014314, 0x4e0811a1, 0xf7537e82, 0xbd3af235, 0x2ad7d2bb, 0xeb86d391]"

definition rotl32 :: "32 word \<Rightarrow> nat \<Rightarrow> 32 word" where
  "rotl32 x n = (push_bit n x) OR (drop_bit (32 - n) x)"

type_synonym md5_state = "32 word \<times> 32 word \<times> 32 word \<times> 32 word"

definition md5_round :: "32 word list \<Rightarrow> md5_state \<Rightarrow> nat \<Rightarrow> md5_state" where
  "md5_round M st i =
     (case st of (A, B, C, D) \<Rightarrow>
        let (F, g) =
              (if i < 16 then ((B AND C) OR (NOT B AND D), i)
               else if i < 32 then ((D AND B) OR (NOT D AND C), (5 * i + 1) mod 16)
               else if i < 48 then (B XOR C XOR D, (3 * i + 5) mod 16)
               else (C XOR (B OR NOT D), (7 * i) mod 16));
            F' = F + A + md5_K ! i + M ! g
        in (D, B + rotl32 F' (md5_shift ! i), B, C))"

text \<open>A little-endian 32-bit word from four bytes, and back.\<close>

definition le_word :: "8 word list \<Rightarrow> 32 word" where
  "le_word bs = foldr (\<lambda>b w. push_bit 8 w + ucast b) bs 0"

definition word_le :: "32 word \<Rightarrow> 8 word list" where
  "word_le w = map (\<lambda>k. ucast (drop_bit (8 * k) w)) [0, 1, 2, 3]"

fun chunks :: "nat \<Rightarrow> 'a list \<Rightarrow> 'a list list" where
  "chunks n [] = []"
| "chunks n (x # xs) =
     (if n = 0 then [] else take n (x # xs) # chunks n (drop n (x # xs)))"

definition md5_block :: "md5_state \<Rightarrow> 8 word list \<Rightarrow> md5_state" where
  "md5_block st block =
     (case st of (a0, b0, c0, d0) \<Rightarrow>
        (case foldl (md5_round (map le_word (chunks 4 block))) st [0 ..< 64] of
           (A, B, C, D) \<Rightarrow> (a0 + A, b0 + B, c0 + C, d0 + D)))"

definition md5_pad :: "8 word list \<Rightarrow> 8 word list" where
  "md5_pad msg =
     msg @ [0x80] @ replicate ((55 + 64 - length msg mod 64) mod 64) 0
       @ map (\<lambda>k. ucast (drop_bit (8 * k) (of_nat (8 * length msg) :: 64 word)))
           [0, 1, 2, 3, 4, 5, 6, 7]"

definition md5_digest :: "8 word list \<Rightarrow> 8 word list" where
  "md5_digest msg =
     (case foldl md5_block (0x67452301, 0xefcdab89, 0x98badcfe, 0x10325476)
             (chunks 64 (md5_pad msg)) of
        (a, b, c, d) \<Rightarrow> word_le a @ word_le b @ word_le c @ word_le d)"

definition hex_digit :: "nat \<Rightarrow> nat" where
  "hex_digit d = (if d < 10 then 0x30 + d else 0x57 + d)"

definition hex_byte :: "8 word \<Rightarrow> pystr" where
  "hex_byte b = [hex_digit (unat b div 16), hex_digit (unat b mod 16)]"

definition md5_hexdigest :: "8 word list \<Rightarrow> pystr" where
  "md5_hexdigest msg = concat (map hex_byte (md5_digest msg))"

section \<open>Naming Engine\<close>

text \<open>\<open>sanitize_filename\<close>, lines 135-143.\<close>

definition illegal_char :: "nat \<Rightarrow> bool" where
  "illegal_char c \<longleftrightarrow> c \<in> set [0x3C, 0x3E, 0x3A, 0x22, 0x2F, 0x5C, 0x7C, 0x3F, 0x2A]"

text \<open>\<open>re.sub(r'[_\s]+', ' ', s)\<close>: every longest run of underscores and spaces becomes one space.\<close>

definition is_sep :: "nat \<Rightarrow> bool" where
  "is_sep c \<longleftrightarrow> c = 0x5F \<or> is_space c"

function collapse :: "pystr \<Rightarrow> pystr" where
  "collapse [] = []"
| "collapse (c # cs) =
     (if is_sep c then 0x20 # collapse (dropWhile is_sep cs) else c # collapse cs)"
  by pat_completeness auto
termination
  by (relation "measure length") (auto simp: length_dropWhile_le less_Suc_eq_le)

fun sanitize_filename :: "json \<Rightarrow> exn + pystr" where
  "sanitize_filename (JStr filename) =
     Inr (strip (collapse
       (map (\<lambda>c. if c = 0x0D then 0x20 else c)
         (map (\<lambda>c. if c = 0x0A then 0x20 else c)
           (map (\<lambda>c. if illegal_char c then 0x5F else c) filename)))))"
| "sanitize_filename v =
     Inl (TypeError (lit ''expected string or bytes-like object, got '' @ lit [CHR 0x27]
            @ type_name v @ lit [CHR 0x27]))"

text \<open>\<open>get_short_hash\<close>, lines 145-147, with the default \<open>length=6\<close>.\<close>

definition get_short_hash :: "pybytes \<Rightarrow> pystr" where
  "get_short_hash data = take 6 (md5_hexdigest data)"

text \<open>
  \<open>format_filename\<close>, lines 194-222. \<open>format_composite\<close> is the body of the
  \<open>try\<close>; the \<open>except\<close> clause is the fallback of \<open>format_filename\<close>.
\<close>

definition Unknown :: pystr where
  "Unknown = lit ''Unknown''"

definition authors_str :: "json \<Rightarrow> exn + pystr" where
  "authors_str authors =
     (if truthy authors then
        bind (py_iter authors) (\<lambda>as.
        bind (map_exn (\<lambda>author.
                bind (dict_get author (lit ''name'') (JStr Unknown)) sanitize_filename) as)
          (\<lambda>author_names. Inr (join (lit '' & '') author_names)))
      else Inr Unknown)"

definition format_composite :: "json \<Rightarrow> pystr \<Rightarrow> exn + pystr" where
  "format_composite item_data original_filename =
     bind (dict_get item_data (lit ''name'') (JStr Unknown)) (\<lambda>v.
     bind (sanitize_filename v) (\<lambda>name.
     bind (dict_get item_data (lit ''authors'') (JArr [])) (\<lambda>authors.
     bind (authors_str authors) (\<lambda>authors_s.
     bind (dict_get item_data (lit ''fields'') (JObj [])) (\<lambda>fields.
     bind (dict_get fields (lit ''type'') (JStr Unknown)) (\<lambda>v.
     bind (sanitize_filename v) (\<lambda>hack_type.
     bind (dict_get fields (lit ''difficulty'') (JStr Unknown)) (\<lambda>v.
     bind (sanitize_filename v) (\<lambda>difficulty.
     bind (dict_get fields (lit ''length'') (JStr Unknown)) (\<lambda>v.
     bind (sanitize_filename v) (\<lambda>length.
       Inr (join (lit '' - '')
              [name, authors_s, hack_type, difficulty, length,
               unquote original_filename]))))))))))))"

definition format_filename :: "json \<Rightarrow> pystr \<Rightarrow> exn + pystr" where
  "format_filename item_data original_filename =
     (case format_composite item_data original_filename of
        Inr s \<Rightarrow> Inr s
      | Inl e \<Rightarrow> sanitize_filename (JStr (unquote original_filename)))"

section \<open>Catalog Paginator: \<open>fetch_all_data\<close>\<close>

text \<open>
  The catalog server is a script: the outcome of the first \<open>requests.get\<close>, of the
  second, and so on, in the order the requests are made. An outcome is an exception of
  the call, or a response with its status code and what \<open>response.json()\<close> does
  (raises, or returns the decoded body).
\<close>

datatype http_page =
    RequestRaised exn
  | Responded int "exn + json"

text \<open>
  One pass through the body of the \<open>while\<close> loop, lines 170-186. \<open>None\<close> is
  \<open>break\<close> (a status other than 200, or any exception, which the \<open>except\<close>
  clause turns into \<open>break\<close>); otherwise the extended \<open>all_items\<close> and the new
  \<open>next_url\<close>.
\<close>

fun fetch_page :: "http_page \<Rightarrow> json list \<Rightarrow> (json list \<times> json) option" where
  "fetch_page (RequestRaised e) all_items = None"
| "fetch_page (Responded status_code body) all_items =
     (if status_code = 200 then
        (case body of
           Inl e \<Rightarrow> None
         | Inr data \<Rightarrow>
            (case dict_get data (lit ''data'') (JArr []) of
               Inl e \<Rightarrow> None
             | Inr items \<Rightarrow>
                (case py_iter items of
                   Inl e \<Rightarrow> None
                 | Inr xs \<Rightarrow>
                    (case dict_get data (lit ''next_page_url'') JNull of
                       Inl e \<Rightarrow> None
                     | Inr next_url \<Rightarrow> Some (all_items @ xs, next_url)))))
      else None)"

text \<open>
  The loop \<open>while next_url:\<close>. The result is \<open>all_items\<close> and the number of
  requests made. The loop has no bound of its own (a server may hand out cursors for
  ever): when it asks for a request the script does not have, the result is \<open>None\<close>.
\<close>

fun fetch_loop :: "http_page list \<Rightarrow> json \<Rightarrow> json list \<Rightarrow> nat \<Rightarrow> (json list \<times> nat) option" where
  "fetch_loop [] next_url all_items n =
     (if truthy next_url then None else Some (all_items, n))"
| "fetch_loop (p # ps) next_url all_items n =
     (if truthy next_url then
        (case fetch_page p all_items of
           None \<Rightarrow> Some (all_items, Suc n)
         | Some (all_items', next_url') \<Rightarrow> fetch_loop ps next_url' all_items' (Suc n))
      else Some (all_items, n))"

definition fetch_all_data :: "pystr \<Rightarrow> http_page list \<Rightarrow> (json list \<times> nat) option" where
  "fetch_all_data initial_url script = fetch_loop script (JStr initial_url) [] 0"

text \<open>
  The words of the specification: a page that arrives well (status 200, a JSON object
  whose \<open>data\<close> is the array \<open>items\<close> and whose cursor is \<open>cursor\<close>, \<open>None\<close>
  when the key is absent), and a request that fails.
\<close>

definition page_ok :: "http_page \<Rightarrow> json list \<Rightarrow> json \<Rightarrow> bool" where
  "page_ok p items cursor \<longleftrightarrow>
     (\<exists>kvs. p = Responded 200 (Inr (JObj kvs))
        \<and> map_of kvs (lit ''data'') = Some (JArr items)
        \<and> (case map_of kvs (lit ''next_page_url'') of None \<Rightarrow> JNull | Some v \<Rightarrow> v) = cursor)"

fun page_failed :: "http_page \<Rightarrow> bool" where
  "page_failed (RequestRaised e) = True"
| "page_failed (Responded status_code body) = (status_code \<noteq> 200)"

section \<open>Archive Fetcher: \<open>download_and_extract_bps\<close>\<close>

text \<open>
  The outcome dict of lines 232-239.
\<close>

record fetch_result =
  success :: bool
  download_success :: bool
  bps_count :: int
  bps_files :: "pystr list"
  error :: "pystr option"
  requires_login :: bool

definition initial_result :: fetch_result where
  "initial_result =
     \<lparr>success = False, download_success = False, bps_count = 0, bps_files = [],
      error = None, requires_login = False\<rparr>"

text \<open>
  What the world does during one call. \<open>http\<close>: \<open>requests.get\<close> raises, or answers
  with a status code and a body whose streaming (\<open>iter_content\<close>) raises or yields
  the bytes. \<open>save_zip\<close>: the exception, if any, of opening and writing the file at
  \<open>zip_path\<close>. \<open>zip_open\<close>: \<open>zipfile.ZipFile(zip_path)\<close> raises, or the archive has
  these members, in the order of \<open>namelist()\<close>, each with its name and with what
  \<open>zip_ref.read\<close> does for it. \<open>write_bps\<close>: the exception, if any, of opening and
  writing the file at a path below \<open>bps_dir\<close>.
\<close>

datatype http_download =
    DownloadRaised exn
  | Downloaded int "exn + pybytes"

type_synonym zip_member = "pystr \<times> (exn + pybytes)"

record download_env =
  http :: http_download
  save_zip :: "exn option"
  zip_open :: "exn + zip_member list"
  write_bps :: "pystr \<Rightarrow> exn option"

text \<open>
  The files written to their end, in order: path and content. A download whose
  streaming raises leaves a cut-off file at \<open>zip_path\<close>; it is not listed.
\<close>

type_synonym writes = "(pystr \<times> pybytes) list"

text \<open>Lines 291-299: the name of an extracted patch.\<close>

definition new_bps_name :: "pystr \<Rightarrow> pystr \<Rightarrow> nat \<Rightarrow> pybytes \<Rightarrow> pystr" where
  "new_bps_name base_name decoded_filename n_members bps_content =
     (if n_members = 1 then
        replace base_name decoded_filename
          (replace decoded_filename (lit ''.zip'') (lit ''.bps''))
      else
        replace base_name decoded_filename
          (replace decoded_filename (lit ''.zip'')
             (lit ''_'' @ get_short_hash bps_content @ lit ''.bps'')))"

text \<open>
  The loop of lines 286-307 over \<open>bps_members\<close>. It returns the exception that ended
  it, if any, with \<open>result['bps_files']\<close> and the files written up to then.
\<close>

fun extract_loop ::
  "(pystr \<Rightarrow> exn option) \<Rightarrow> pystr \<Rightarrow> pystr \<Rightarrow> pystr \<Rightarrow> nat \<Rightarrow> zip_member list
     \<Rightarrow> pystr list \<Rightarrow> writes \<Rightarrow> exn option \<times> pystr list \<times> writes" where
  "extract_loop wr bps_dir base_name decoded_filename n [] files ws = (None, files, ws)"
| "extract_loop wr bps_dir base_name decoded_filename n (member # members) files ws =
     (case snd member of
        Inl e \<Rightarrow> (Some e, files, ws)
      | Inr bps_content \<Rightarrow>
         (let bps_path = path_join bps_dir
                (new_bps_name base_name decoded_filename n bps_content)
          in case wr bps_path of
               Some e \<Rightarrow> (Some e, files, ws)
             | None \<Rightarrow>
                 extract_loop wr bps_dir base_name decoded_filename n members
                   (files @ [bps_path]) (ws @ [(bps_path, bps_content)])))"

text \<open>The two \<open>except\<close> clauses of lines 312-317.\<close>

fun extraction_error :: "exn \<Rightarrow> pystr" where
  "extraction_error (BadZipFile m) = lit ''Invalid ZIP file''"
| "extraction_error e = lit ''Extraction error: '' @ exn_str e"

definition processing_error :: "exn \<Rightarrow> fetch_result" where
  "processing_error e =
     initial_result\<lparr>error := Some (lit ''Processing error: '' @ exn_str e)\<rparr>"

definition is_bps_member :: "pystr \<Rightarrow> bool" where
  "is_bps_member m = endswith (lower m) (lit ''.bps'')"

text \<open>Lines 275-317: the archive, once the download is saved.\<close>

definition extract_bps ::
  "download_env \<Rightarrow> pystr \<Rightarrow> pystr \<Rightarrow> pystr \<Rightarrow> fetch_result \<Rightarrow> writes
     \<Rightarrow> fetch_result \<times> writes" where
  "extract_bps env bps_dir base_name decoded_filename result ws =
     (case zip_open env of
        Inl e \<Rightarrow> (result\<lparr>error := Some (extraction_error e)\<rparr>, ws)
      | Inr members \<Rightarrow>
         (let bps_members = filter (\<lambda>m. is_bps_member (fst m)) members in
          if bps_members = [] then (result\<lparr>success := True\<rparr>, ws)
          else
            (case extract_loop (write_bps env) bps_dir base_name decoded_filename
                    (length bps_members) bps_members [] ws of
               (None, files, ws') \<Rightarrow>
                 (result\<lparr>bps_files := files, bps_count := int (length files),
                         success := True\<rparr>, ws')
             | (Some e, files, ws') \<Rightarrow>
                 (result\<lparr>bps_files := files, error := Some (extraction_error e)\<rparr>, ws'))))"

text \<open>
  \<open>download_and_extract_bps\<close>, lines 227-324. \<open>download_url\<close> is whatever the item
  holds under that key; anything but a str has no \<open>split\<close>.
\<close>

definition download_and_extract_bps ::
  "json \<Rightarrow> json \<Rightarrow> pystr \<Rightarrow> pystr \<Rightarrow> download_env \<Rightarrow> fetch_result \<times> writes" where
  "download_and_extract_bps item_data download_url zip_dir bps_dir env =
     (case download_url of
        JStr url \<Rightarrow>
         (let original_filename = split_last 0x2F url;
              decoded_filename = unquote original_filename
          in case format_filename item_data original_filename of
               Inl e \<Rightarrow> (processing_error e, [])
             | Inr base_name \<Rightarrow>
                (let zip_path = path_join zip_dir decoded_filename
                 in case http env of
                      DownloadRaised e \<Rightarrow> (processing_error e, [])
                    | Downloaded status_code body \<Rightarrow>
                       if status_code = 403 then
                         (initial_result\<lparr>requires_login := True,
                            error := Some (lit ''Requires login (age verification)'')\<rparr>, [])
                       else if status_code \<noteq> 200 then
                         (initial_result\<lparr>error := Some (lit ''HTTP '' @ str_int status_code)\<rparr>, [])
                       else
                         (case save_zip env of
                            Some e \<Rightarrow> (processing_error e, [])
                          | None \<Rightarrow>
                             (case body of
                                Inl e \<Rightarrow> (processing_error e, [])
                              | Inr content \<Rightarrow>
                                  extract_bps env bps_dir base_name decoded_filename
                                    (initial_result\<lparr>download_success := True\<rparr>)
                                    [(zip_path, content)]))))
      | v \<Rightarrow> (processing_error (no_attribute v ''split''), []))"

section \<open>Patch Applier Adapter: \<open>patch_bps_file\<close>\<close>

datatype log_level = DEBUG | INFO | WARNING | ERROR

type_synonym log = "(log_level \<times> pystr) list"

text \<open>
  The external tool: \<open>subprocess.run(cmd, capture_output=True, text=True)\<close> raises, or
  the process ends with a return code and a text on its standard error.
\<close>

type_synonym runner = "pystr list \<Rightarrow> exn + (int \<times> pystr)"

definition patch_cmd :: "pystr \<Rightarrow> pystr \<Rightarrow> pystr \<Rightarrow> pystr \<Rightarrow> pystr list" where
  "patch_cmd bps_path patched_dir flips_path clean_rom =
     (let bps_filename = basename bps_path;
          output_filename = replace bps_filename (lit ''.bps'') (lit ''.smc'');
          output_path = path_join patched_dir output_filename
      in [flips_path, lit ''-a'', bps_path, clean_rom, output_path])"

definition patch_bps_file ::
  "pystr \<Rightarrow> pystr \<Rightarrow> pystr \<Rightarrow> pystr \<Rightarrow> runner \<Rightarrow> bool \<times> log" where
  "patch_bps_file bps_path patched_dir flips_path clean_rom run =
     (let bps_filename = basename bps_path;
          cmd = patch_cmd bps_path patched_dir flips_path clean_rom;
          patching = (DEBUG, lit ''Patching: '' @ bps_filename)
      in case run cmd of
           Inl e \<Rightarrow>
             (False, [patching,
                (ERROR, lit ''Error patching '' @ bps_path @ lit '': '' @ exn_str e)])
         | Inr (returncode, stderr) \<Rightarrow>
             if returncode = 0 then
               (True, [patching, (DEBUG, lit ''Successfully patched: '' @ bps_filename)])
             else
               (False, [patching,
                  (ERROR, lit ''Failed to patch '' @ bps_filename @ lit '': '' @ stderr)]))"

section \<open>Run Orchestrator: the item loop of \<open>main\<close>\<close>

record partition_stats =
  total_hacks :: int
  downloaded :: int
  failed_downloads :: int
  stats_requires_login :: int
  total_bps :: int
  patched :: int
  failed_patches :: int
  login_required_hacks :: "(json \<times> pystr \<times> json) list"
  failed_hacks :: "(json \<times> pystr option) list"

definition initial_stats :: partition_stats where
  "initial_stats =
     \<lparr>total_hacks = 0, downloaded = 0, failed_downloads = 0, stats_requires_login = 0,
      total_bps = 0, patched = 0, failed_patches = 0, login_required_hacks = [],
      failed_hacks = []\<rparr>"

text \<open>\<open>sep.join(xs)\<close> for a list of any objects: each must be a str.\<close>

fun str_items :: "nat \<Rightarrow> json list \<Rightarrow> exn + pystr list" where
  "str_items i [] = Inr []"
| "str_items i (JStr s # xs) = bind (str_items (Suc i) xs) (\<lambda>ss. Inr (s # ss))"
| "str_items i (v # xs) =
     Inl (TypeError (lit ''sequence item '' @ str_nat i @ lit '': expected str instance, ''
            @ type_name v @ lit '' found''))"

definition str_join :: "pystr \<Rightarrow> json list \<Rightarrow> exn + pystr" where
  "str_join sep xs = bind (str_items 0 xs) (\<lambda>ss. Inr (join sep ss))"

text \<open>
  What the world does while one item is processed: the download, and the external tool.
\<close>

record item_env =
  download :: download_env
  flips_run :: runner

text \<open>
  The directories and paths of the run.
\<close>

record run_config =
  cfg_zip_dir :: pystr
  cfg_bps_dir :: pystr
  cfg_patched_dir :: pystr
  cfg_flips :: pystr
  cfg_clean_rom :: pystr

text \<open>Lines 505-506: the authors of an item, for the report.\<close>

definition item_author_names :: "json \<Rightarrow> exn + pystr" where
  "item_author_names item =
     bind (dict_get item (lit ''authors'') (JArr [])) (\<lambda>authors.
     bind (py_iter authors) (\<lambda>as.
     bind (map_exn (\<lambda>author. dict_get author (lit ''name'') (JStr Unknown)) as) (\<lambda>names.
       str_join (lit '' & '') names)))"

text \<open>
  One pass through the body of the loop of lines 493-552. The loop is outside every
  \<open>try\<close>: an exception here ends the program.
\<close>

definition process_item ::
  "run_config \<Rightarrow> partition_stats \<Rightarrow> json \<times> item_env \<Rightarrow> exn + partition_stats" where
  "process_item cfg stats x =
     (case x of (item, env) \<Rightarrow>
        bind (dict_get item (lit ''name'') (JStr Unknown)) (\<lambda>hack_name.
        bind (dict_get item (lit ''download_url'') JNull) (\<lambda>download_url.
          if \<not> truthy download_url then Inr stats
          else
            (let stats = stats\<lparr>total_hacks := total_hacks stats + 1\<rparr> in
             bind (item_author_names item) (\<lambda>author_names.
               (let result = fst (download_and_extract_bps item download_url
                                    (cfg_zip_dir cfg) (cfg_bps_dir cfg) (download env))
                in if requires_login result then
                     Inr (stats\<lparr>stats_requires_login := stats_requires_login stats + 1,
                            login_required_hacks := login_required_hacks stats
                              @ [(hack_name, author_names, download_url)]\<rparr>)
                   else if \<not> download_success result then
                     Inr (stats\<lparr>failed_downloads := failed_downloads stats + 1,
                            failed_hacks := failed_hacks stats @ [(hack_name, error result)]\<rparr>)
                   else
                     (let outcomes = map (\<lambda>bps_file.
                            fst (patch_bps_file bps_file (cfg_patched_dir cfg) (cfg_flips cfg)
                                   (cfg_clean_rom cfg) (flips_run env))) (bps_files result);
                          patches_success = int (length (filter (\<lambda>ok. ok) outcomes));
                          patches_failed = int (length (filter (\<lambda>ok. \<not> ok) outcomes))
                      in Inr (stats\<lparr>downloaded := downloaded stats + 1,
                               total_bps := total_bps stats + bps_count result,
                               patched := patched stats + patches_success,
                               failed_patches := failed_patches stats + patches_failed\<rparr>))))))))"

fun process_items ::
  "run_config \<Rightarrow> partition_stats \<Rightarrow> (json \<times> item_env) list \<Rightarrow> exn + partition_stats" where
  "process_items cfg stats [] = Inr stats"
| "process_items cfg stats (x # xs) =
     bind (process_item cfg stats x) (\<lambda>stats'. process_items cfg stats' xs)"

section \<open>Counting what \<open>replace\<close> rewrites\<close>

text \<open>The number of occurrences \<open>replace_from\<close> rewrites.\<close>

function occurrences :: "pystr \<Rightarrow> pystr \<Rightarrow> nat" where
  "occurrences [] old = 0"
| "occurrences (a # s) old =
     (if old \<noteq> [] \<and> startswith (a # s) old
      then Suc (occurrences (drop (length old) (a # s)) old)
      else occurrences s old)"
  by pat_completeness auto
termination
  by (relation "measure (\<lambda>(s, old). length s)") auto

section \<open>Naming Engine: the specification's words\<close>

text \<open>
  The words of the specification: a metadata field that is absent. \<open>name\<close> and
  \<open>authors\<close> are keys of the item; \<open>type\<close>, \<open>difficulty\<close> and \<open>length\<close> are keys
  of its \<open>fields\<close> dict, and are absent with it.
\<close>

definition absent :: "json \<Rightarrow> string \<Rightarrow> bool" where
  "absent item k \<longleftrightarrow> (\<exists>kvs. item = JObj kvs \<and> map_of kvs (lit k) = None)"

definition absent_field :: "json \<Rightarrow> string \<Rightarrow> bool" where
  "absent_field item k \<longleftrightarrow>
     (\<exists>kvs. item = JObj kvs \<and>
        (map_of kvs (lit ''fields'') = None
         \<or> (\<exists>fs. map_of kvs (lit ''fields'') = Some (JObj fs) \<and> map_of fs (lit k) = None)))"

text \<open>
  Metadata whose fields, where present, have the types the catalog gives them: a str
  for \<open>name\<close> and for each key of \<open>fields\<close>, and for \<open>authors\<close> a list of dicts
  whose \<open>name\<close>, if any, is a str.
\<close>

fun is_str :: "json \<Rightarrow> bool" where
  "is_str (JStr s) = True"
| "is_str v = False"

fun str_if_present :: "json option \<Rightarrow> bool" where
  "str_if_present None = True"
| "str_if_present (Some v) = is_str v"

fun author_ok :: "json \<Rightarrow> bool" where
  "author_ok (JObj kvs) = str_if_present (map_of kvs (lit ''name''))"
| "author_ok v = False"

fun authors_ok :: "json option \<Rightarrow> bool" where
  "authors_ok None = True"
| "authors_ok (Some (JArr as)) = list_all author_ok as"
| "authors_ok (Some v) = False"

fun fields_ok :: "json option \<Rightarrow> bool" where
  "fields_ok None = True"
| "fields_ok (Some (JObj fs)) =
     (str_if_present (map_of fs (lit ''type'')) \<and> str_if_present (map_of fs (lit ''difficulty''))
      \<and> str_if_present (map_of fs (lit ''length'')))"
| "fields_ok (Some v) = False"

definition well_typed :: "json \<Rightarrow> bool" where
  "well_typed item \<longleftrightarrow>
     (\<exists>kvs. item = JObj kvs \<and> str_if_present (map_of kvs (lit ''name''))
        \<and> authors_ok (map_of kvs (lit ''authors'')) \<and> fields_ok (map_of kvs (lit ''fields'')))"

section \<open>Patch Applier Adapter: the specification's words\<close>

text \<open>
  The words of the specification: a filename with its suffix \<open>old\<close> replaced by \<open>new\<close>.
\<close>

definition suffix_replaced :: "pystr \<Rightarrow> pystr \<Rightarrow> pystr \<Rightarrow> pystr" where
  "suffix_replaced name old new =
     (if endswith name old then take (length name - length old) name @ new else name)"

section \<open>Archive Fetcher: the specification's words\<close>

text \<open>
  A member that the loop extracts: reading it gives its bytes, and writing the file at
  its path raises nothing.
\<close>

definition member_extracts :: "(pystr \<Rightarrow> exn option) \<Rightarrow> pystr \<Rightarrow> zip_member \<Rightarrow> bool" where
  "member_extracts wr p m = (case snd m of Inl e \<Rightarrow> False | Inr c \<Rightarrow> wr p = None)"

section \<open>Example inputs\<close>

text \<open>Concrete configurations, items and environments, for the instances below.\<close>

definition example_cfg :: run_config where
  "example_cfg =
     \<lparr>cfg_zip_dir = lit ''zips'', cfg_bps_dir = lit ''bps'', cfg_patched_dir = lit ''patched'',
      cfg_flips = lit ''./flips'', cfg_clean_rom = lit ''clean.smc''\<rparr>"

definition example_item1 :: "(pystr \<times> json) list" where
  "example_item1 =
     [(lit ''name'', JStr (lit ''First'')),
      (lit ''download_url'', JStr (lit ''https://host/first.zip''))]"

definition example_item2 :: "(pystr \<times> json) list" where
  "example_item2 =
     [(lit ''name'', JStr (lit ''Second'')),
      (lit ''authors'', JArr [JObj [(lit ''name'', JStr (lit ''ann''))]]),
      (lit ''download_url'', JStr (lit ''https://host/second.zip''))]"

definition example_env :: "http_download \<Rightarrow> (exn + zip_member list) \<Rightarrow> item_env" where
  "example_env h z =
     \<lparr>download = \<lparr>http = h, save_zip = None, zip_open = z, write_bps = (\<lambda>p. None)\<rparr>,
      flips_run = (\<lambda>cmd. Inr (0, []))\<rparr>"

definition example_metadata :: json where
  "example_metadata =
     JObj [(lit ''name'', JStr (lit ''Cool: Hack'')),
           (lit ''fields'', JObj [(lit ''type'', JStr (lit ''Kaizo: Light''))])]"

section \<open>The library functions on known values\<close>

text \<open>
  The digests of the empty message and of \<open>abc\<close> are those of RFC 1321.
\<close>

lemma md5_of_empty: "md5_hexdigest [] = lit ''d41d8cd98f00b204e9800998ecf8427e''"
  by code_simp

lemma md5_of_abc:
  "md5_hexdigest [0x61, 0x62, 0x63] = lit ''900150983cd24fb0d6963f7d28e17f72''"
  by code_simp

lemma unquote_example:
  "unquote (lit ''My%20Hack%E2%82%AC%zz%ff.zip'') = lit ''My Hack'' @ [0x20AC] @ lit ''%zz'' @ [0xFFFD] @ lit ''.zip''"
  by (simp add: unquote_def lit_def cont_def second3_def second4_def)

lemma sanitize_example:
  "sanitize_filename (JStr (lit ''  a<b>__  c:d _ e  '')) = Inr (lit ''a b c d e'')"
  by (simp add: lit_def illegal_char_def is_sep_def is_space_def strip_def)

section \<open>Properties of the paginator\<close>

lemma fetch_page_ok:
  "page_ok p items cursor \<Longrightarrow> fetch_page p acc = Some (acc @ items, cursor)"
  by (auto simp: page_ok_def)

lemma fetch_page_failed:
  "page_failed p \<Longrightarrow> fetch_page p acc = None"
  by (cases p) auto

lemma fetch_loop_pages:
  assumes "\<forall>x \<in> set pg. page_ok (fst x) (fst (snd x)) (snd (snd x)) \<and> truthy (snd (snd x))"
    and "truthy u"
  shows "\<exists>u'. truthy u' \<and>
           fetch_loop (map fst pg @ rest) u acc n =
           fetch_loop rest u' (acc @ concat (map (\<lambda>x. fst (snd x)) pg)) (n + length pg)"
  using assms
proof (induction pg arbitrary: u acc n)
  case Nil
  then show ?case by auto
next
  case (Cons x pg)
  obtain p items cursor where x: "x = (p, items, cursor)"
    by (cases x) auto
  from Cons.prems x have ok: "page_ok p items cursor" and tc: "truthy cursor"
    by auto
  from Cons.prems have rest_ok:
    "\<forall>y \<in> set pg. page_ok (fst y) (fst (snd y)) (snd (snd y)) \<and> truthy (snd (snd y))"
    by auto
  from Cons.IH [OF rest_ok tc, of "acc @ items" "Suc n"]
  obtain u' where u': "truthy u'"
    and eq: "fetch_loop (map fst pg @ rest) cursor (acc @ items) (Suc n) =
             fetch_loop rest u' ((acc @ items) @ concat (map (\<lambda>x. fst (snd x)) pg)) (Suc n + length pg)"
    by blast
  have "fetch_loop (map fst (x # pg) @ rest) u acc n =
        fetch_loop (map fst pg @ rest) cursor (acc @ items) (Suc n)"
    using Cons.prems(2) x by (simp add: fetch_page_ok [OF ok])
  with eq u' x show ?case
    by auto
qed

text \<open>
  C3. Pages that arrive well, each but the last with a cursor to follow: the result is
  the concatenation of their \<open>data\<close> arrays, in arrival order, after one request per
  page. When instead a request fails (an exception, or a status other than 200) after
  some pages, each of which had a cursor, the result is the concatenation of the arrays
  of the pages before the failure, and the failed request was the last one made: the
  script's later entries are never asked for.
\<close>

theorem fetch_all_data_concatenates_pages:
  assumes "\<forall>x \<in> set pg. page_ok (fst x) (fst (snd x)) (snd (snd x)) \<and> truthy (snd (snd x))"
    and "initial_url \<noteq> []"
  shows "(page_ok p items cursor \<and> \<not> truthy cursor \<longrightarrow>
            fetch_all_data initial_url (map fst pg @ [p]) =
              Some (concat (map (\<lambda>x. fst (snd x)) pg) @ items, length pg + 1))
       \<and> (page_failed f \<longrightarrow>
            fetch_all_data initial_url (map fst pg @ f # rest) =
              Some (concat (map (\<lambda>x. fst (snd x)) pg), length pg + 1))"
proof -
  have tu: "truthy (JStr initial_url)"
    using assms(2) by simp
  have a: "fetch_all_data initial_url (map fst pg @ [p]) =
             Some (concat (map (\<lambda>x. fst (snd x)) pg) @ items, length pg + 1)"
    if "page_ok p items cursor" "\<not> truthy cursor"
  proof -
    from fetch_loop_pages [OF assms(1) tu, of "[p]" "[]" 0]
    obtain u' where "truthy u'"
      and "fetch_loop (map fst pg @ [p]) (JStr initial_url) [] 0 =
           fetch_loop [p] u' (concat (map (\<lambda>x. fst (snd x)) pg)) (length pg)"
      by auto
    then show ?thesis
      using that by (simp add: fetch_all_data_def fetch_page_ok [OF that(1)])
  qed
  have b: "fetch_all_data initial_url (map fst pg @ f # rest) =
             Some (concat (map (\<lambda>x. fst (snd x)) pg), length pg + 1)"
    if "page_failed f"
  proof -
    from fetch_loop_pages [OF assms(1) tu, of "f # rest" "[]" 0]
    obtain u' where "truthy u'"
      and "fetch_loop (map fst pg @ f # rest) (JStr initial_url) [] 0 =
           fetch_loop (f # rest) u' (concat (map (\<lambda>x. fst (snd x)) pg)) (length pg)"
      by auto
    then show ?thesis
      by (simp add: fetch_all_data_def fetch_page_failed [OF that])
  qed
  from a b show ?thesis by blast
qed

theorem fetch_all_data_concatenates_pages_witness:
  "fetch_all_data (lit ''u1'')
     [Responded 200 (Inr (JObj [(lit ''data'', JArr [JInt 1, JInt 2]),
                                (lit ''next_page_url'', JStr (lit ''u2''))])),
      Responded 200 (Inr (JObj [(lit ''data'', JArr [JInt 3]),
                                (lit ''next_page_url'', JNull)]))]
     = Some ([JInt 1, JInt 2, JInt 3], 2)
   \<and> fetch_all_data (lit ''u1'')
     [Responded 200 (Inr (JObj [(lit ''data'', JArr [JInt 1, JInt 2]),
                                (lit ''next_page_url'', JStr (lit ''u2''))])),
      Responded 503 (Inl (OtherError [])),
      Responded 200 (Inr (JObj [(lit ''data'', JArr [JInt 3]),
                                (lit ''next_page_url'', JNull)]))]
     = Some ([JInt 1, JInt 2], 2)"
  using fetch_all_data_concatenates_pages
    [of "[(Responded 200 (Inr (JObj [(lit ''data'', JArr [JInt 1, JInt 2]),
                                     (lit ''next_page_url'', JStr (lit ''u2''))])),
           [JInt 1, JInt 2], JStr (lit ''u2''))]"
        "lit ''u1''"
        "Responded 200 (Inr (JObj [(lit ''data'', JArr [JInt 3]),
                                   (lit ''next_page_url'', JNull)]))"
        "[JInt 3]" JNull
        "Responded 503 (Inl (OtherError []))"
        "[Responded 200 (Inr (JObj [(lit ''data'', JArr [JInt 3]),
                                    (lit ''next_page_url'', JNull)]))]"]
  by (simp add: page_ok_def lit_def)

section \<open>Properties of the fetcher and the orchestrator\<close>

lemma format_filename_returns:
  "\<exists>s. format_filename item_data original_filename = Inr s"
  by (simp add: format_filename_def split: sum.splits)

lemma download_403:
  assumes "http env = Downloaded 403 body"
  shows "download_and_extract_bps item_data (JStr url) zd bd env =
           (initial_result\<lparr>requires_login := True,
              error := Some (lit ''Requires login (age verification)'')\<rparr>, [])"
proof -
  obtain base_name where "format_filename item_data (split_last 0x2F url) = Inr base_name"
    using format_filename_returns by blast
  then show ?thesis
    using assms by (simp add: download_and_extract_bps_def Let_def)
qed

text \<open>What a call that saved no download returns.\<close>

lemma not_200_no_download:
  assumes "\<forall>body. http env \<noteq> Downloaded 200 body"
  shows "\<not> download_success (fst (download_and_extract_bps item_data download_url zd bd env))"
proof (cases download_url)
  case (JStr url)
  obtain base_name where "format_filename item_data (split_last 0x2F url) = Inr base_name"
    using format_filename_returns by blast
  then show ?thesis
    using assms JStr
    by (auto simp: download_and_extract_bps_def initial_result_def processing_error_def Let_def
          split: http_download.splits)
qed (simp_all add: download_and_extract_bps_def processing_error_def initial_result_def)

lemma extract_loop_ok:
  assumes "\<forall>m \<in> set ms. \<exists>c. snd m = Inr c"
    and "\<forall>p. wr p = None"
  shows "extract_loop wr bd base dec n ms files ws =
           (None,
            files @ map (\<lambda>m. path_join bd (new_bps_name base dec n (projr (snd m)))) ms,
            ws @ map (\<lambda>m. (path_join bd (new_bps_name base dec n (projr (snd m))),
                            projr (snd m))) ms)"
  using assms
proof (induction ms arbitrary: files ws)
  case Nil
  then show ?case by simp
next
  case (Cons m ms)
  from Cons.prems(1) obtain c where c: "snd m = Inr c"
    by auto
  from Cons.prems have "\<forall>m \<in> set ms. \<exists>c. snd m = Inr c"
    by simp
  from Cons.IH [OF this Cons.prems(2)] c Cons.prems(2) show ?case
    by (simp add: Let_def)
qed

lemma download_and_extract_ok:
  assumes "http env = Downloaded 200 (Inr content)"
    and "save_zip env = None"
    and "zip_open env = Inr members"
    and "\<forall>m \<in> set members. is_bps_member (fst m) \<longrightarrow> (\<exists>c. snd m = Inr c)"
    and "\<forall>p. write_bps env p = None"
    and "format_filename item_data (split_last 0x2F url) = Inr base_name"
    and "selected = filter (\<lambda>m. is_bps_member (fst m)) members"
    and "bps_path = (\<lambda>m. path_join bd
           (new_bps_name base_name (unquote (split_last 0x2F url)) (length selected)
              (projr (snd m))))"
  shows "download_and_extract_bps item_data (JStr url) zd bd env =
           (\<lparr>success = True, download_success = True, bps_count = int (length selected),
             bps_files = map bps_path selected, error = None, requires_login = False\<rparr>,
            (path_join zd (unquote (split_last 0x2F url)), content)
              # map (\<lambda>m. (bps_path m, projr (snd m))) selected)"
proof -
  have sel: "\<forall>m \<in> set selected. \<exists>c. snd m = Inr c"
    using assms(4,7) by auto
  show ?thesis
    using assms(1-3,6) assms(7) [symmetric]
    by (simp add: download_and_extract_bps_def extract_bps_def initial_result_def Let_def
          extract_loop_ok [OF sel assms(5)] assms(8))
qed

lemma startswith_iff:
  "startswith xs t \<longleftrightarrow> (\<exists>r. xs = t @ r)"
  by (induction xs t rule: startswith.induct) auto

lemma endswith_iff:
  "endswith xs t \<longleftrightarrow> (\<exists>r. xs = r @ t)"
proof -
  have "(\<exists>r. rev xs = rev t @ r) \<longleftrightarrow> (\<exists>r. xs = r @ t)"
  proof
    assume "\<exists>r. rev xs = rev t @ r"
    then obtain r where "rev xs = rev t @ r" ..
    then have "rev (rev xs) = rev (rev t @ r)" by simp
    then have "xs = rev r @ t" by simp
    then show "\<exists>r. xs = r @ t" ..
  next
    assume "\<exists>r. xs = r @ t"
    then obtain r where "xs = r @ t" ..
    then have "rev xs = rev t @ rev r" by simp
    then show "\<exists>r. rev xs = rev t @ r" ..
  qed
  then show ?thesis
    by (simp add: endswith_def startswith_iff)
qed

lemma is_bps_member_iff:
  "is_bps_member name \<longleftrightarrow>
     (\<exists>stem b p s. name = stem @ [0x2E, b, p, s]
        \<and> (b = 0x62 \<or> b = 0x42) \<and> (p = 0x70 \<or> p = 0x50) \<and> (s = 0x73 \<or> s = 0x53))"
proof
  assume "is_bps_member name"
  then obtain r where "map lower_char name = r @ [0x2E, 0x62, 0x70, 0x73]"
    by (auto simp: is_bps_member_def endswith_iff lower_def lit_def)
  then obtain stem d b p s where name: "name = stem @ [d, b, p, s]"
    and l: "lower_char d = 0x2E" "lower_char b = 0x62" "lower_char p = 0x70" "lower_char s = 0x73"
    by (auto simp: map_eq_append_conv map_eq_Cons_conv)
  from l have "(s = 0x73 \<or> s = 0x53) \<and> (p = 0x70 \<or> p = 0x50) \<and> (b = 0x62 \<or> b = 0x42) \<and> d = 0x2E"
    by (auto simp: lower_char_def split: if_splits)
  with name show "\<exists>stem b p s. name = stem @ [0x2E, b, p, s]
        \<and> (b = 0x62 \<or> b = 0x42) \<and> (p = 0x70 \<or> p = 0x50) \<and> (s = 0x73 \<or> s = 0x53)"
    by blast
next
  assume "\<exists>stem b p s. name = stem @ [0x2E, b, p, s]
        \<and> (b = 0x62 \<or> b = 0x42) \<and> (p = 0x70 \<or> p = 0x50) \<and> (s = 0x73 \<or> s = 0x53)"
  then obtain stem b p s where "name = stem @ [0x2E, b, p, s]"
    and "lower_char b = 0x62" "lower_char p = 0x70" "lower_char s = 0x73"
    by (auto simp: lower_char_def)
  then have "lower name = lower stem @ lit ''.bps''"
    by (simp add: lower_def lit_def lower_char_def)
  then show "is_bps_member name"
    unfolding is_bps_member_def endswith_iff by blast
qed

lemma patch_bps_file_succeeds:
  assumes "\<forall>cmd. \<exists>err. run cmd = Inr (0, err)"
  shows "fst (patch_bps_file p pd f c run)"
proof -
  obtain err where "run (patch_cmd p pd f c) = Inr (0, err)"
    using assms by blast
  then show ?thesis
    by (simp add: patch_bps_file_def Let_def)
qed

lemma example_item1_authors: "item_author_names (JObj example_item1) = Inr []"
  by (simp add: item_author_names_def example_item1_def lit_def str_join_def)

lemma example_item2_authors: "item_author_names (JObj example_item2) = Inr (lit ''ann'')"
  by (simp add: item_author_names_def example_item2_def lit_def str_join_def Unknown_def)

lemma example_bps_members:
  "filter (\<lambda>m. is_bps_member (fst m))
     [(lit ''readme.txt'', Inr [0x68, 0x69]), (lit ''Hack.BPS'', Inr [0x42, 0x50, 0x53, 0x31])]
   = [(lit ''Hack.BPS'', Inr [0x42, 0x50, 0x53, 0x31])]"
  by (simp add: is_bps_member_def endswith_def lower_def lower_char_def lit_def)

text \<open>
  C4. A download that answers with status 403: the outcome has \<open>requires_login\<close> true,
  \<open>download_success\<close> and \<open>success\<close> false, no extracted file, and the fixed
  message; no file was written.
\<close>

theorem download_403_requires_login:
  assumes "http env = Downloaded 403 body"
  shows "download_and_extract_bps item_data (JStr url) zd bd env =
           (\<lparr>success = False, download_success = False, bps_count = 0, bps_files = [],
             error = Some (lit ''Requires login (age verification)''),
             requires_login = True\<rparr>, [])"
  using download_403 [OF assms] by (simp add: initial_result_def)

theorem download_403_requires_login_witness:
  "download_and_extract_bps (JObj []) (JStr (lit ''https://host/files/hack.zip''))
      (lit ''zips'') (lit ''bps'')
      \<lparr>http = Downloaded 403 (Inr []), save_zip = None, zip_open = Inr [],
       write_bps = (\<lambda>p. None)\<rparr>
    = (\<lparr>success = False, download_success = False, bps_count = 0, bps_files = [],
        error = Some (lit ''Requires login (age verification)''),
        requires_login = True\<rparr>, [])"
  using download_403_requires_login
    [of "\<lparr>http = Downloaded 403 (Inr []), save_zip = None, zip_open = Inr [],
          write_bps = (\<lambda>p. None)\<rparr>" "Inr []"]
  by simp

text \<open>
  C5. A download with status 200 whose saved file is not a zip archive
  (\<open>zipfile.BadZipFile\<close>): the outcome carries the error \<open>Invalid ZIP file\<close>,
  nothing is raised, \<open>download_success\<close> stays true, and the item loop counts the
  item under \<open>downloaded\<close>, leaving \<open>failed_downloads\<close> as it was.
\<close>

theorem invalid_zip_counts_as_downloaded:
  assumes "http (download env) = Downloaded 200 (Inr content)"
    and "save_zip (download env) = None"
    and "zip_open (download env) = Inl (BadZipFile msg)"
    and "map_of kvs (lit ''download_url'') = Some (JStr url)"
    and "url \<noteq> []"
    and "item_author_names (JObj kvs) = Inr author_names"
  shows "fst (download_and_extract_bps (JObj kvs) (JStr url) (cfg_zip_dir cfg) (cfg_bps_dir cfg)
               (download env)) =
           \<lparr>success = False, download_success = True, bps_count = 0, bps_files = [],
            error = Some (lit ''Invalid ZIP file''), requires_login = False\<rparr>
       \<and> process_item cfg stats (JObj kvs, env) =
           Inr (stats\<lparr>total_hacks := total_hacks stats + 1,
                       downloaded := downloaded stats + 1\<rparr>)"
proof -
  obtain base_name where "format_filename (JObj kvs) (split_last 0x2F url) = Inr base_name"
    using format_filename_returns by blast
  then have r: "fst (download_and_extract_bps (JObj kvs) (JStr url) (cfg_zip_dir cfg)
                       (cfg_bps_dir cfg) (download env)) =
                  \<lparr>success = False, download_success = True, bps_count = 0, bps_files = [],
                   error = Some (lit ''Invalid ZIP file''), requires_login = False\<rparr>"
    using assms(1-3)
    by (simp add: download_and_extract_bps_def extract_bps_def initial_result_def Let_def)
  have "process_item cfg stats (JObj kvs, env) =
          Inr (stats\<lparr>total_hacks := total_hacks stats + 1,
                      downloaded := downloaded stats + 1\<rparr>)"
    using assms(4-6) by (simp add: process_item_def r Let_def)
  with r show ?thesis by simp
qed

theorem invalid_zip_counts_as_downloaded_witness:
  "fst (download_and_extract_bps (JObj example_item1) (JStr (lit ''https://host/first.zip''))
          (cfg_zip_dir example_cfg) (cfg_bps_dir example_cfg)
          (download (example_env (Downloaded 200 (Inr [0x3C, 0x68]))
                       (Inl (BadZipFile (lit ''File is not a zip file'')))))) =
     \<lparr>success = False, download_success = True, bps_count = 0, bps_files = [],
      error = Some (lit ''Invalid ZIP file''), requires_login = False\<rparr>
   \<and> process_item example_cfg initial_stats
        (JObj example_item1,
         example_env (Downloaded 200 (Inr [0x3C, 0x68]))
           (Inl (BadZipFile (lit ''File is not a zip file'')))) =
       Inr (initial_stats\<lparr>total_hacks := total_hacks initial_stats + 1,
              downloaded := downloaded initial_stats + 1\<rparr>)"
proof -
  have u1: "map_of example_item1 (lit ''download_url'') = Some (JStr (lit ''https://host/first.zip''))"
    by (simp add: example_item1_def lit_def)
  have ne: "lit ''https://host/first.zip'' \<noteq> []"
    by (simp add: lit_def)
  show ?thesis
    by (rule invalid_zip_counts_as_downloaded [OF _ _ _ u1 ne example_item1_authors])
       (simp_all add: example_env_def)
qed

text \<open>
  C7. A partition of two items: the first downloads as an archive with one \<open>.bps\<close>
  member that the tool patches with return code 0, the second answers 403. The
  statistics are 2 hacks, 1 downloaded, 1 requiring login, 1 patch extracted, 1 patched,
  no failed download, and the login-required list holds the second item's name, authors
  and URL.
\<close>

theorem two_item_partition_statistics:
  assumes "map_of kvs1 (lit ''download_url'') = Some (JStr url1)"
    and "url1 \<noteq> []"
    and "item_author_names (JObj kvs1) = Inr authors1"
    and "http (download env1) = Downloaded 200 (Inr content)"
    and "save_zip (download env1) = None"
    and "zip_open (download env1) = Inr members"
    and "filter (\<lambda>m. is_bps_member (fst m)) members = [(member, Inr patch)]"
    and "\<forall>p. write_bps (download env1) p = None"
    and "\<forall>cmd. \<exists>err. flips_run env1 cmd = Inr (0, err)"
    and "map_of kvs2 (lit ''download_url'') = Some (JStr url2)"
    and "url2 \<noteq> []"
    and "item_author_names (JObj kvs2) = Inr authors2"
    and "http (download env2) = Downloaded 403 body"
  shows "process_items cfg initial_stats [(JObj kvs1, env1), (JObj kvs2, env2)] =
           Inr \<lparr>total_hacks = 2, downloaded = 1, failed_downloads = 0,
                stats_requires_login = 1, total_bps = 1, patched = 1, failed_patches = 0,
                login_required_hacks =
                  [(case map_of kvs2 (lit ''name'') of None \<Rightarrow> JStr Unknown | Some v \<Rightarrow> v,
                    authors2, JStr url2)],
                failed_hacks = []\<rparr>"
proof -
  obtain base_name where b: "format_filename (JObj kvs1) (split_last 0x2F url1) = Inr base_name"
    using format_filename_returns by blast
  have ok: "\<forall>m \<in> set members. is_bps_member (fst m) \<longrightarrow> (\<exists>c. snd m = Inr c)"
  proof
    fix m assume "m \<in> set members"
    show "is_bps_member (fst m) \<longrightarrow> (\<exists>c. snd m = Inr c)"
    proof
      assume "is_bps_member (fst m)"
      with \<open>m \<in> set members\<close> have "m \<in> set (filter (\<lambda>m. is_bps_member (fst m)) members)"
        by simp
      with assms(7) show "\<exists>c. snd m = Inr c" by simp
    qed
  qed
  have r1: "fst (download_and_extract_bps (JObj kvs1) (JStr url1) (cfg_zip_dir cfg)
                   (cfg_bps_dir cfg) (download env1)) =
              \<lparr>success = True, download_success = True, bps_count = 1,
               bps_files = [path_join (cfg_bps_dir cfg)
                  (new_bps_name base_name (unquote (split_last 0x2F url1)) 1 patch)],
               error = None, requires_login = False\<rparr>"
    using download_and_extract_ok [OF assms(4,5,6) ok assms(8) b refl refl,
        where bd = "cfg_bps_dir cfg" and zd = "cfg_zip_dir cfg"] assms(7)
    by simp
  have s1: "process_item cfg initial_stats (JObj kvs1, env1) =
              Inr (initial_stats\<lparr>total_hacks := 1, downloaded := 1, total_bps := 1,
                     patched := 1\<rparr>)"
    using assms(1-3)
    by (simp add: process_item_def r1 Let_def patch_bps_file_succeeds [OF assms(9)]
          initial_stats_def)
  have s2: "process_item cfg (initial_stats\<lparr>total_hacks := 1, downloaded := 1, total_bps := 1,
                     patched := 1\<rparr>) (JObj kvs2, env2) =
              Inr \<lparr>total_hacks = 2, downloaded = 1, failed_downloads = 0,
                stats_requires_login = 1, total_bps = 1, patched = 1, failed_patches = 0,
                login_required_hacks =
                  [(case map_of kvs2 (lit ''name'') of None \<Rightarrow> JStr Unknown | Some v \<Rightarrow> v,
                    authors2, JStr url2)],
                failed_hacks = []\<rparr>"
    using assms(10-12)
    by (simp add: process_item_def download_403 [OF assms(13)] Let_def initial_stats_def
          initial_result_def)
  show ?thesis
    by (simp add: s1 s2)
qed

theorem two_item_partition_statistics_witness:
  "process_items example_cfg initial_stats
     [(JObj example_item1,
       example_env (Downloaded 200 (Inr [0x50, 0x4B]))
         (Inr [(lit ''readme.txt'', Inr [0x68, 0x69]),
               (lit ''Hack.BPS'', Inr [0x42, 0x50, 0x53, 0x31])])),
      (JObj example_item2, example_env (Downloaded 403 (Inr [])) (Inr []))]
   = Inr \<lparr>total_hacks = 2, downloaded = 1, failed_downloads = 0,
          stats_requires_login = 1, total_bps = 1, patched = 1, failed_patches = 0,
          login_required_hacks =
            [(JStr (lit ''Second''), lit ''ann'', JStr (lit ''https://host/second.zip''))],
          failed_hacks = []\<rparr>"
proof -
  have u1: "map_of example_item1 (lit ''download_url'') = Some (JStr (lit ''https://host/first.zip''))"
    by (simp add: example_item1_def lit_def)
  have u2: "map_of example_item2 (lit ''download_url'') = Some (JStr (lit ''https://host/second.zip''))"
    by (simp add: example_item2_def lit_def)
  have n2: "map_of example_item2 (lit ''name'') = Some (JStr (lit ''Second''))"
    by (simp add: example_item2_def lit_def)
  have ne: "lit ''https://host/first.zip'' \<noteq> []" "lit ''https://host/second.zip'' \<noteq> []"
    by (simp_all add: lit_def)
  show ?thesis
    using two_item_partition_statistics
      [of example_item1 "lit ''https://host/first.zip''" "[]"
          "example_env (Downloaded 200 (Inr [0x50, 0x4B]))
             (Inr [(lit ''readme.txt'', Inr [0x68, 0x69]),
                   (lit ''Hack.BPS'', Inr [0x42, 0x50, 0x53, 0x31])])"
          "[0x50, 0x4B]"
          "[(lit ''readme.txt'', Inr [0x68, 0x69]),
            (lit ''Hack.BPS'', Inr [0x42, 0x50, 0x53, 0x31])]"
          "lit ''Hack.BPS''" "[0x42, 0x50, 0x53, 0x31]"
          example_item2 "lit ''https://host/second.zip''" "lit ''ann''"
          "example_env (Downloaded 403 (Inr [])) (Inr [])" "Inr []" example_cfg]
      u1 u2 n2 ne example_item1_authors example_item2_authors example_bps_members
    by (simp add: example_env_def)
qed

lemma extract_loop_prefix:
  fixes wr bd base dec n
  defines "path \<equiv> \<lambda>m. path_join bd (new_bps_name base dec n (projr (snd m)))"
  defines "ok \<equiv> \<lambda>m. member_extracts wr (path m) m"
  shows "\<exists>e. extract_loop wr bd base dec n ms files ws =
               (e, files @ map path (takeWhile ok ms),
                ws @ map (\<lambda>m. (path m, projr (snd m))) (takeWhile ok ms))
             \<and> (e = None \<longleftrightarrow> takeWhile ok ms = ms)"
proof (induction ms arbitrary: files ws)
  case Nil
  then show ?case by simp
next
  case (Cons m ms)
  show ?case
  proof (cases "snd m")
    case (Inl e)
    then have "\<not> ok m"
      by (simp add: ok_def member_extracts_def)
    with Inl show ?thesis by simp
  next
    case (Inr c)
    show ?thesis
    proof (cases "wr (path m)")
      case (Some e)
      then have "\<not> ok m"
        by (simp add: ok_def member_extracts_def Inr)
      with Inr Some show ?thesis
        by (simp add: path_def Let_def)
    next
      case None
      then have okm: "ok m"
        by (simp add: ok_def member_extracts_def Inr)
      from Cons.IH [of "files @ [path m]" "ws @ [(path m, c)]"]
      obtain e where
        "extract_loop wr bd base dec n ms (files @ [path m]) (ws @ [(path m, c)]) =
           (e, (files @ [path m]) @ map path (takeWhile ok ms),
            (ws @ [(path m, c)]) @ map (\<lambda>m. (path m, projr (snd m))) (takeWhile ok ms))"
        and "e = None \<longleftrightarrow> takeWhile ok ms = ms"
        by blast
      with Inr None okm show ?thesis
        by (simp add: path_def Let_def)
    qed
  qed
qed

lemma example_hash_3: "get_short_hash [0x01] = lit ''55a540''"
  by code_simp

lemma example_first_name:
  "format_filename (JObj example_item1) (split_last 0x2F (lit ''https://host/first.zip'')) =
     Inr (lit ''First - Unknown - Unknown - Unknown - Unknown - first.zip'')
   \<and> unquote (split_last 0x2F (lit ''https://host/first.zip'')) = lit ''first.zip''"
proof -
  have sp: "split_last 0x2F (lit ''https://host/first.zip'') = lit ''first.zip''"
    by (simp add: split_last_def lit_def)
  have uq: "unquote (lit ''first.zip'') = lit ''first.zip''"
    by (simp add: unquote_def lit_def)
  have "format_composite (JObj example_item1) (lit ''first.zip'') =
          Inr (lit ''First - Unknown - Unknown - Unknown - Unknown - first.zip'')"
    by (simp add: format_composite_def example_item1_def lit_def authors_str_def Unknown_def
          illegal_char_def is_sep_def is_space_def strip_def unquote_def)
  then show ?thesis
    by (simp add: format_filename_def sp uq)
qed

text \<open>
  C8, as stated, fails: the loop of lines 286-307 is inside one \<open>try\<close>, so the first
  member that cannot be read (or whose file cannot be written) ends the extraction. An
  archive with three \<open>.bps\<close> members whose second is encrypted opens well, yet
  only the first member is written; the third, which could be read, is not, and the
  count stays at 0.
\<close>

theorem unreadable_member_stops_extraction:
  "download_and_extract_bps (JObj example_item1) (JStr (lit ''https://host/first.zip''))
      (lit ''zips'') (lit ''bps'')
      (download (example_env (Downloaded 200 (Inr [0x50, 0x4B]))
         (Inr [(lit ''a.bps'', Inr [0x01]),
               (lit ''b.bps'', Inl (OtherError
                  (lit ''File 'b.bps' is encrypted, password required for extraction''))),
               (lit ''c.bps'', Inr [0x02])])))
   = (\<lparr>success = False, download_success = True, bps_count = 0,
       bps_files = [lit ''bps/First - Unknown - Unknown - Unknown - Unknown - first_55a540.bps''],
       error = Some (lit ''Extraction error: File 'b.bps' is encrypted, password required for extraction''),
       requires_login = False\<rparr>,
      [(lit ''zips/first.zip'', [0x50, 0x4B]),
       (lit ''bps/First - Unknown - Unknown - Unknown - Unknown - first_55a540.bps'', [0x01])])"
proof -
  have m: "is_bps_member (lit ''a.bps'')" "is_bps_member (lit ''b.bps'')"
    "is_bps_member (lit ''c.bps'')"
    by (simp_all add: is_bps_member_def endswith_def lower_def lower_char_def lit_def)
  have n: "new_bps_name (lit ''First - Unknown - Unknown - Unknown - Unknown - first.zip'')
             (lit ''first.zip'') (Suc (Suc (Suc 0))) [0x01] =
           lit ''First - Unknown - Unknown - Unknown - Unknown - first_55a540.bps''"
    by (simp add: new_bps_name_def example_hash_3) (simp add: replace_def lit_def)
  have pz: "path_join (lit ''zips'') (lit ''first.zip'') = lit ''zips/first.zip''"
    and pb: "path_join (lit ''bps'')
               (lit ''First - Unknown - Unknown - Unknown - Unknown - first_55a540.bps'') =
             lit ''bps/First - Unknown - Unknown - Unknown - Unknown - first_55a540.bps''"
    by (simp_all add: path_join_def endswith_def lit_def)
  have e: "lit ''Extraction error: '' @ lit ''File 'b.bps' is encrypted, password required for extraction''
           = lit ''Extraction error: File 'b.bps' is encrypted, password required for extraction''"
    by (simp add: lit_def)
  show ?thesis
    by (simp add: download_and_extract_bps_def extract_bps_def initial_result_def Let_def
          example_first_name example_env_def m n pz pb e)
qed

text \<open>
  C8, amended. For every archive that opens, the members selected are those whose name
  ends in a dot followed by b, p, s in either case; they are read and written in the
  archive's order up to the first one whose reading or writing raises; each of those is
  written under \<open>bps_dir\<close> and its path is recorded in the outcome, in order. When
  none raises, every selected member is written and the outcome records their number.
\<close>

theorem extraction_up_to_first_failure:
  assumes "http env = Downloaded 200 (Inr content)"
    and "save_zip env = None"
    and "zip_open env = Inr members"
    and "selected = filter (\<lambda>m. is_bps_member (fst m)) members"
    and "bps_path = (\<lambda>m. path_join bd
           (new_bps_name (projr (format_filename item_data (split_last 0x2F url)))
              (unquote (split_last 0x2F url)) (length selected) (projr (snd m))))"
    and "extracted = takeWhile (\<lambda>m. member_extracts (write_bps env) (bps_path m) m) selected"
    and "r = download_and_extract_bps item_data (JStr url) zd bd env"
  shows "(\<forall>m \<in> set members. m \<in> set selected \<longleftrightarrow>
            (\<exists>stem b p s. fst m = stem @ [0x2E, b, p, s]
               \<and> (b = 0x62 \<or> b = 0x42) \<and> (p = 0x70 \<or> p = 0x50) \<and> (s = 0x73 \<or> s = 0x53)))
       \<and> bps_files (fst r) = map bps_path extracted
       \<and> snd r = (path_join zd (unquote (split_last 0x2F url)), content)
                   # map (\<lambda>m. (bps_path m, projr (snd m))) extracted
       \<and> download_success (fst r) \<and> \<not> requires_login (fst r)
       \<and> (extracted = selected \<longrightarrow>
            fst r = \<lparr>success = True, download_success = True,
                     bps_count = int (length selected), bps_files = map bps_path selected,
                     error = None, requires_login = False\<rparr>)"
proof -
  obtain base_name where b: "format_filename item_data (split_last 0x2F url) = Inr base_name"
    using format_filename_returns by blast
  have p: "bps_path = (\<lambda>m. path_join bd
           (new_bps_name base_name (unquote (split_last 0x2F url)) (length selected)
              (projr (snd m))))"
    using assms(5) b by simp
  from extract_loop_prefix [of "write_bps env" bd base_name "unquote (split_last 0x2F url)"
      "length selected" selected "[]" "[(path_join zd (unquote (split_last 0x2F url)), content)]"]
  obtain e where
    l: "extract_loop (write_bps env) bd base_name (unquote (split_last 0x2F url))
          (length selected) selected [] [(path_join zd (unquote (split_last 0x2F url)), content)] =
        (e, map bps_path extracted,
         (path_join zd (unquote (split_last 0x2F url)), content)
           # map (\<lambda>m. (bps_path m, projr (snd m))) extracted)"
    and e: "e = None \<longleftrightarrow> extracted = selected"
    unfolding p assms(6) by auto
  have r: "r = (if selected = [] then
                  (initial_result\<lparr>download_success := True, success := True\<rparr>,
                   [(path_join zd (unquote (split_last 0x2F url)), content)])
                else (case e of
                   None \<Rightarrow> initial_result\<lparr>download_success := True,
                            bps_files := map bps_path extracted,
                            bps_count := int (length (map bps_path extracted)),
                            success := True\<rparr>
                 | Some x \<Rightarrow> initial_result\<lparr>download_success := True,
                            bps_files := map bps_path extracted,
                            error := Some (extraction_error x)\<rparr>,
                 (path_join zd (unquote (split_last 0x2F url)), content)
                   # map (\<lambda>m. (bps_path m, projr (snd m))) extracted))"
    using assms(1-3) b assms(4) [symmetric] l
    by (simp add: assms(7) download_and_extract_bps_def extract_bps_def Let_def
          split: option.splits)
  have s0: "extracted = []" if "selected = []"
    using that assms(6) by simp
  have 1: "\<forall>m \<in> set members. m \<in> set selected \<longleftrightarrow>
            (\<exists>stem b p s. fst m = stem @ [0x2E, b, p, s]
               \<and> (b = 0x62 \<or> b = 0x42) \<and> (p = 0x70 \<or> p = 0x50) \<and> (s = 0x73 \<or> s = 0x53))"
    using assms(4) by (simp add: is_bps_member_iff)
  have 2: "bps_files (fst r) = map bps_path extracted"
    using s0 by (cases e) (auto simp: r initial_result_def)
  have 3: "snd r = (path_join zd (unquote (split_last 0x2F url)), content)
                   # map (\<lambda>m. (bps_path m, projr (snd m))) extracted"
    using s0 by (auto simp: r)
  have 4: "download_success (fst r) \<and> \<not> requires_login (fst r)"
    by (cases e) (auto simp: r initial_result_def)
  have 5: "fst r = \<lparr>success = True, download_success = True,
                     bps_count = int (length selected), bps_files = map bps_path selected,
                     error = None, requires_login = False\<rparr>"
    if "extracted = selected"
    using that e by (auto simp: r initial_result_def)
  from 1 2 3 4 5 show ?thesis
    by blast
qed

theorem extraction_up_to_first_failure_witness:
  "fst (download_and_extract_bps (JObj example_item1) (JStr (lit ''https://host/first.zip''))
      (lit ''zips'') (lit ''bps'')
      (download (example_env (Downloaded 200 (Inr [0x50, 0x4B]))
         (Inr [(lit ''a.bps'', Inr [1]), (lit ''notes.txt'', Inr [2]), (lit ''B.BpS'', Inr [3])]))))
   = \<lparr>success = True, download_success = True, bps_count = 2,
       bps_files =
         map (\<lambda>m. path_join (lit ''bps'')
                (new_bps_name
                   (projr (format_filename (JObj example_item1)
                             (split_last 0x2F (lit ''https://host/first.zip''))))
                   (unquote (split_last 0x2F (lit ''https://host/first.zip''))) 2
                   (projr (snd m))))
           [(lit ''a.bps'', Inr [1]), (lit ''B.BpS'', Inr [3])],
       error = None, requires_login = False\<rparr>
   \<and> snd (download_and_extract_bps (JObj example_item1) (JStr (lit ''https://host/first.zip''))
      (lit ''zips'') (lit ''bps'')
      (download (example_env (Downloaded 200 (Inr [0x50, 0x4B]))
         (Inr [(lit ''a.bps'', Inr [1]), (lit ''notes.txt'', Inr [2]), (lit ''B.BpS'', Inr [3])]))))
   = (path_join (lit ''zips'') (unquote (split_last 0x2F (lit ''https://host/first.zip''))),
       [0x50, 0x4B])
      # map (\<lambda>m. (path_join (lit ''bps'')
                (new_bps_name
                   (projr (format_filename (JObj example_item1)
                             (split_last 0x2F (lit ''https://host/first.zip''))))
                   (unquote (split_last 0x2F (lit ''https://host/first.zip''))) 2
                   (projr (snd m))), projr (snd m)))
           [(lit ''a.bps'', Inr [1]), (lit ''B.BpS'', Inr [3])]"
proof -
  let ?members = "[(lit ''a.bps'', Inr [1 :: 8 word]), (lit ''notes.txt'', Inr [2]),
                   (lit ''B.BpS'', Inr [3])]"
  let ?selected = "[(lit ''a.bps'', Inr [1 :: 8 word]), (lit ''B.BpS'', Inr [3])]"
  let ?env = "download (example_env (Downloaded 200 (Inr [0x50, 0x4B])) (Inr ?members))"
  have sel: "?selected = filter (\<lambda>m. is_bps_member (fst m)) ?members"
    by (simp add: is_bps_member_def endswith_def lower_def lower_char_def lit_def)
  have h1: "http ?env = Downloaded 200 (Inr [0x50, 0x4B])"
    and h2: "save_zip ?env = None"
    and h3: "zip_open ?env = Inr ?members"
    by (simp_all add: example_env_def)
  have ex: "?selected = takeWhile (\<lambda>m. member_extracts (write_bps ?env) (p m) m) ?selected" for p
    by (simp add: member_extracts_def example_env_def)
  from extraction_up_to_first_failure
    [where bd = "lit ''bps''" and zd = "lit ''zips''" and item_data = "JObj example_item1"
       and url = "lit ''https://host/first.zip''", OF h1 h2 h3 sel refl ex refl]
  show ?thesis
    by (simp add: numeral_2_eq_2)
qed

text \<open>
  C9. A download with status 200 whose file opens as an archive without a member ending
  in \<open>.bps\<close>: \<open>success\<close> and \<open>download_success\<close> are true, nothing is extracted,
  and only the archive itself was written. No call whose request did not answer 200
  (a failed download, or the 403 of C4) returns this outcome.
\<close>

theorem no_bps_members_is_success:
  assumes "http env = Downloaded 200 (Inr content)"
    and "save_zip env = None"
    and "zip_open env = Inr members"
    and "filter (\<lambda>m. is_bps_member (fst m)) members = []"
  shows "download_and_extract_bps item_data (JStr url) zd bd env =
           (\<lparr>success = True, download_success = True, bps_count = 0, bps_files = [],
             error = None, requires_login = False\<rparr>,
            [(path_join zd (unquote (split_last 0x2F url)), content)])
       \<and> (\<forall>env' item' url'. (\<forall>body. http env' \<noteq> Downloaded 200 body) \<longrightarrow>
             fst (download_and_extract_bps item' url' zd bd env') \<noteq>
             fst (download_and_extract_bps item_data (JStr url) zd bd env))"
proof -
  obtain base_name where "format_filename item_data (split_last 0x2F url) = Inr base_name"
    using format_filename_returns by blast
  then have r: "download_and_extract_bps item_data (JStr url) zd bd env =
           (\<lparr>success = True, download_success = True, bps_count = 0, bps_files = [],
             error = None, requires_login = False\<rparr>,
            [(path_join zd (unquote (split_last 0x2F url)), content)])"
    using assms
    by (simp add: download_and_extract_bps_def extract_bps_def initial_result_def Let_def)
  have "fst (download_and_extract_bps item' url' zd bd env') \<noteq>
        fst (download_and_extract_bps item_data (JStr url) zd bd env)"
    if "\<forall>body. http env' \<noteq> Downloaded 200 body" for env' item' url'
  proof
    assume "fst (download_and_extract_bps item' url' zd bd env') =
            fst (download_and_extract_bps item_data (JStr url) zd bd env)"
    then have "download_success (fst (download_and_extract_bps item' url' zd bd env'))"
      by (simp add: r)
    with not_200_no_download [OF that] show False by blast
  qed
  with r show ?thesis by blast
qed

theorem no_bps_members_is_success_witness:
  "download_and_extract_bps (JObj example_item1) (JStr (lit ''https://host/first.zip''))
      (lit ''zips'') (lit ''bps'')
      (download (example_env (Downloaded 200 (Inr [0x50, 0x4B]))
         (Inr [(lit ''readme.txt'', Inr [0x68, 0x69])])))
   = (\<lparr>success = True, download_success = True, bps_count = 0, bps_files = [],
       error = None, requires_login = False\<rparr>,
      [(path_join (lit ''zips'') (unquote (split_last 0x2F (lit ''https://host/first.zip''))),
        [0x50, 0x4B])])"
proof -
  let ?env = "download (example_env (Downloaded 200 (Inr [0x50, 0x4B]))
         (Inr [(lit ''readme.txt'', Inr [0x68, 0x69])]))"
  have h1: "http ?env = Downloaded 200 (Inr [0x50, 0x4B])"
    and h2: "save_zip ?env = None"
    and h3: "zip_open ?env = Inr [(lit ''readme.txt'', Inr [0x68, 0x69])]"
    by (simp_all add: example_env_def)
  have h4: "filter (\<lambda>m. is_bps_member (fst m)) [(lit ''readme.txt'', Inr [0x68 :: 8 word, 0x69])] = []"
    by (simp add: is_bps_member_def endswith_def lower_def lower_char_def lit_def)
  from no_bps_members_is_success [OF h1 h2 h3 h4, THEN conjunct1]
  show ?thesis .
qed

text \<open>
  The item loop accounts for every item it counts: whatever the items and the world,
  a run that ends leaves \<open>total_hacks\<close> equal to the sum of \<open>downloaded\<close>,
  \<open>failed_downloads\<close> and \<open>stats_requires_login\<close> when it started so; an item
  without a download URL changes nothing.
\<close>

lemma process_item_without_url:
  assumes "\<not> truthy (case map_of kvs (lit ''download_url'') of None \<Rightarrow> JNull | Some v \<Rightarrow> v)"
  shows "process_item cfg stats (JObj kvs, env) = Inr stats"
  using assms by (simp add: process_item_def)

lemma process_item_with_url:
  assumes "process_item cfg stats (JObj kvs, env) = Inr stats'"
    and "truthy (case map_of kvs (lit ''download_url'') of None \<Rightarrow> JNull | Some v \<Rightarrow> v)"
  shows "total_hacks stats' = total_hacks stats + 1
       \<and> (stats_requires_login stats' = stats_requires_login stats + 1
            \<and> failed_downloads stats' = failed_downloads stats
            \<and> downloaded stats' = downloaded stats
          \<or> stats_requires_login stats' = stats_requires_login stats
            \<and> failed_downloads stats' = failed_downloads stats + 1
            \<and> downloaded stats' = downloaded stats
          \<or> stats_requires_login stats' = stats_requires_login stats
            \<and> failed_downloads stats' = failed_downloads stats
            \<and> downloaded stats' = downloaded stats + 1)"
proof (cases "item_author_names (JObj kvs)")
  case (Inl e)
  with assms show ?thesis
    by (simp add: process_item_def Let_def)
next
  case (Inr a)
  with assms show ?thesis
    by (auto simp: process_item_def Let_def split: if_splits)
qed

lemma process_item_balance:
  assumes "process_item cfg stats x = Inr stats'"
  shows "total_hacks stats' - (downloaded stats' + failed_downloads stats' + stats_requires_login stats')
       = total_hacks stats - (downloaded stats + failed_downloads stats + stats_requires_login stats)"
proof -
  obtain item env where x: "x = (item, env)"
    by (cases x) auto
  show ?thesis
  proof (cases item)
    case (JObj kvs)
    show ?thesis
    proof (cases "truthy (case map_of kvs (lit ''download_url'') of None \<Rightarrow> JNull | Some v \<Rightarrow> v)")
      case True
      from process_item_with_url [OF assms [unfolded x JObj] True] show ?thesis
        by auto
    next
      case False
      from process_item_without_url [OF False] assms x JObj show ?thesis
        by simp
    qed
  qed (use assms x in \<open>simp_all add: process_item_def\<close>)
qed

lemma process_items_balance:
  assumes "process_items cfg stats xs = Inr stats'"
  shows "total_hacks stats' - (downloaded stats' + failed_downloads stats' + stats_requires_login stats')
       = total_hacks stats - (downloaded stats + failed_downloads stats + stats_requires_login stats)"
  using assms
proof (induction xs arbitrary: stats)
  case Nil
  then show ?case by simp
next
  case (Cons x xs)
  then obtain s1 where s1: "process_item cfg stats x = Inr s1"
    and rest: "process_items cfg s1 xs = Inr stats'"
    by (cases "process_item cfg stats x") auto
  from Cons.IH [OF rest] process_item_balance [OF s1] show ?case
    by simp
qed

text \<open>
  C10. The claim's last equation, \<open>patched + failed_patches = total_bps\<close>, against the
  code: an archive with two \<open>.bps\<close> members whose second member cannot be read
  (\<open>zip_ref.read\<close> raises \<open>BadZipFile\<close>, as for a bad CRC). The first member
  is extracted and patched, yet \<open>bps_count\<close>, set only after the loop of lines
  286-307, is still 0: the partition ends with \<open>patched = 1\<close> and \<open>total_bps = 0\<close>.
\<close>

theorem interrupted_extraction_leaves_bps_count_stale:
  "process_items example_cfg initial_stats
     [(JObj example_item1,
       example_env (Downloaded 200 (Inr [0x50, 0x4B]))
         (Inr [(lit ''a.bps'', Inr [1]),
               (lit ''b.bps'', Inl (BadZipFile (lit ''Bad CRC-32 for file b.bps'')))]))]
   = Inr \<lparr>total_hacks = 1, downloaded = 1, failed_downloads = 0,
          stats_requires_login = 0, total_bps = 0, patched = 1, failed_patches = 0,
          login_required_hacks = [], failed_hacks = []\<rparr>"
proof -
  let ?url = "lit ''https://host/first.zip''"
  let ?env = "example_env (Downloaded 200 (Inr [0x50, 0x4B]))
         (Inr [(lit ''a.bps'', Inr [1]),
               (lit ''b.bps'', Inl (BadZipFile (lit ''Bad CRC-32 for file b.bps'')))])"
  obtain base_name where b: "format_filename (JObj example_item1) (split_last 0x2F ?url) = Inr base_name"
    using format_filename_returns by blast
  have m: "is_bps_member (lit ''a.bps'')" "is_bps_member (lit ''b.bps'')"
    by (simp_all add: is_bps_member_def endswith_def lower_def lower_char_def lit_def)
  have r: "fst (download_and_extract_bps (JObj example_item1) (JStr ?url)
                  (cfg_zip_dir example_cfg) (cfg_bps_dir example_cfg) (download ?env)) =
             \<lparr>success = False, download_success = True, bps_count = 0,
              bps_files = [path_join (cfg_bps_dir example_cfg)
                 (new_bps_name base_name (unquote (split_last 0x2F ?url)) 2 [1])],
              error = Some (lit ''Invalid ZIP file''), requires_login = False\<rparr>"
    by (simp add: download_and_extract_bps_def extract_bps_def initial_result_def Let_def b
          example_env_def m numeral_2_eq_2)
  have u1: "map_of example_item1 (lit ''download_url'') = Some (JStr ?url)"
    by (simp add: example_item1_def lit_def)
  have ne: "?url \<noteq> []"
    by (simp add: lit_def)
  have t: "\<forall>cmd. \<exists>err. flips_run ?env cmd = Inr (0, err)"
    by (simp add: example_env_def)
  have "process_item example_cfg initial_stats (JObj example_item1, ?env) =
          Inr \<lparr>total_hacks = 1, downloaded = 1, failed_downloads = 0,
          stats_requires_login = 0, total_bps = 0, patched = 1, failed_patches = 0,
          login_required_hacks = [], failed_hacks = []\<rparr>"
    using u1 ne example_item1_authors
    by (simp add: process_item_def r Let_def initial_stats_def patch_bps_file_succeeds [OF t])
  then show ?thesis by simp
qed

section \<open>Properties of the naming engine\<close>

lemma sanitize_Unknown: "sanitize_filename (JStr Unknown) = Inr Unknown"
  by (simp add: Unknown_def lit_def illegal_char_def is_sep_def is_space_def strip_def)

lemma sanitize_str_if_present:
  assumes that: "str_if_present v"
  shows "\<exists>s. sanitize_filename (case v of None \<Rightarrow> JStr Unknown | Some x \<Rightarrow> x) = Inr s
       \<and> (v = None \<longrightarrow> s = Unknown)"
proof (cases v)
  case None
  then show ?thesis by (simp add: sanitize_Unknown del: sanitize_filename.simps)
next
  case (Some x)
  with that obtain t where "x = JStr t"
    by (cases x) auto
  with Some show ?thesis by simp
qed

lemma bind_Inr_iff:
  "bind m f = Inr y \<longleftrightarrow> (\<exists>x. m = Inr x \<and> f x = Inr y)"
  by (cases m) auto

lemma map_exn_authors_ok:
  "list_all author_ok as \<Longrightarrow>
     \<exists>names. map_exn (\<lambda>author. bind (dict_get author (lit ''name'') (JStr Unknown))
                  sanitize_filename) as = Inr names"
proof (induction as)
  case Nil
  then show ?case by simp
next
  case (Cons a as)
  then obtain names where n: "map_exn (\<lambda>author. bind (dict_get author (lit ''name'') (JStr Unknown))
                  sanitize_filename) as = Inr names"
    by auto
  from Cons.prems obtain kvs where a: "a = JObj kvs" and s: "str_if_present (map_of kvs (lit ''name''))"
    by (cases a) auto
  from sanitize_str_if_present [OF s] obtain x where
    "sanitize_filename (case map_of kvs (lit ''name'') of None \<Rightarrow> JStr Unknown | Some x \<Rightarrow> x) = Inr x"
    by blast
  with n a show ?case by simp
qed

lemma authors_str_ok:
  assumes "authors_ok v"
  shows "\<exists>s. authors_str (case v of None \<Rightarrow> JArr [] | Some x \<Rightarrow> x) = Inr s
           \<and> (v = None \<longrightarrow> s = Unknown)"
proof (cases v)
  case None
  then show ?thesis by (simp add: authors_str_def)
next
  case (Some a)
  with assms obtain as where a: "a = JArr as" and l: "list_all author_ok as"
    by (cases a) auto
  from map_exn_authors_ok [OF l] obtain names where
    "map_exn (\<lambda>author. bind (dict_get author (lit ''name'') (JStr Unknown))
                  sanitize_filename) as = Inr names" ..
  with Some a show ?thesis
    by (simp add: authors_str_def)
qed

lemma authors_str_absent:
  "authors_str (JArr []) = Inr Unknown"
  by (simp add: authors_str_def)

lemma format_composite_well_typed:
  assumes "well_typed item_data"
  shows "\<exists>s. format_composite item_data original_filename = Inr s"
proof -
  from assms obtain kvs where item: "item_data = JObj kvs"
    and n: "str_if_present (map_of kvs (lit ''name''))"
    and a: "authors_ok (map_of kvs (lit ''authors''))"
    and f: "fields_ok (map_of kvs (lit ''fields''))"
    by (auto simp: well_typed_def)
  from sanitize_str_if_present [OF n] obtain name where
    name: "sanitize_filename (case map_of kvs (lit ''name'') of None \<Rightarrow> JStr Unknown | Some x \<Rightarrow> x) = Inr name"
    by blast
  from authors_str_ok [OF a] obtain authors where
    authors: "authors_str (case map_of kvs (lit ''authors'') of None \<Rightarrow> JArr [] | Some x \<Rightarrow> x) = Inr authors"
    by blast
  show ?thesis
  proof (cases "map_of kvs (lit ''fields'')")
    case None
    with item name authors show ?thesis
      by (simp add: format_composite_def sanitize_Unknown)
  next
    case (Some fv)
    with f obtain fs where fv: "fv = JObj fs"
      and t: "str_if_present (map_of fs (lit ''type''))"
      and d: "str_if_present (map_of fs (lit ''difficulty''))"
      and l: "str_if_present (map_of fs (lit ''length''))"
      by (cases fv) auto
    from sanitize_str_if_present [OF t] sanitize_str_if_present [OF d]
      sanitize_str_if_present [OF l]
    obtain ts ds ls where
      "sanitize_filename (case map_of fs (lit ''type'') of None \<Rightarrow> JStr Unknown | Some x \<Rightarrow> x) = Inr ts"
      "sanitize_filename (case map_of fs (lit ''difficulty'') of None \<Rightarrow> JStr Unknown | Some x \<Rightarrow> x) = Inr ds"
      "sanitize_filename (case map_of fs (lit ''length'') of None \<Rightarrow> JStr Unknown | Some x \<Rightarrow> x) = Inr ls"
      by blast
    with item name authors Some fv show ?thesis
      by (simp add: format_composite_def)
  qed
qed

lemma bind_InrE:
  assumes "bind m f = Inr y"
  obtains x where "m = Inr x" and "f x = Inr y"
  using assms by (cases m) auto

lemma absent_name:
  "absent item_data ''name'' \<Longrightarrow> dict_get item_data (lit ''name'') (JStr Unknown) = Inr v
     \<Longrightarrow> sanitize_filename v = Inr x \<Longrightarrow> x = Unknown"
  by (auto simp: absent_def sanitize_Unknown simp del: sanitize_filename.simps)

lemma absent_authors:
  "absent item_data ''authors'' \<Longrightarrow> dict_get item_data (lit ''authors'') (JArr []) = Inr v
     \<Longrightarrow> authors_str v = Inr x \<Longrightarrow> x = Unknown"
  by (auto simp: absent_def authors_str_absent)

lemma absent_field_value:
  "absent_field item_data k \<Longrightarrow> dict_get item_data (lit ''fields'') (JObj []) = Inr flds
     \<Longrightarrow> dict_get flds (lit k) (JStr Unknown) = Inr v
     \<Longrightarrow> sanitize_filename v = Inr x \<Longrightarrow> x = Unknown"
  by (auto simp: absent_field_def sanitize_Unknown simp del: sanitize_filename.simps)

lemma format_composite_placeholders:
  assumes "format_composite item_data original_filename = Inr s"
  shows "\<exists>name authors hack_type difficulty len.
           s = join (lit '' - '')
                 [name, authors, hack_type, difficulty, len, unquote original_filename]
         \<and> (absent item_data ''name'' \<longrightarrow> name = Unknown)
         \<and> (absent item_data ''authors'' \<longrightarrow> authors = Unknown)
         \<and> (absent_field item_data ''type'' \<longrightarrow> hack_type = Unknown)
         \<and> (absent_field item_data ''difficulty'' \<longrightarrow> difficulty = Unknown)
         \<and> (absent_field item_data ''length'' \<longrightarrow> len = Unknown)"
proof -
  from assms [unfolded format_composite_def]
  obtain v1 where g1: "dict_get item_data (lit ''name'') (JStr Unknown) = Inr v1"
    and r1: "bind (sanitize_filename v1) (\<lambda>name.
     bind (dict_get item_data (lit ''authors'') (JArr [])) (\<lambda>authors.
     bind (authors_str authors) (\<lambda>authors_s.
     bind (dict_get item_data (lit ''fields'') (JObj [])) (\<lambda>flds.
     bind (dict_get flds (lit ''type'') (JStr Unknown)) (\<lambda>v.
     bind (sanitize_filename v) (\<lambda>hack_type.
     bind (dict_get flds (lit ''difficulty'') (JStr Unknown)) (\<lambda>v.
     bind (sanitize_filename v) (\<lambda>difficulty.
     bind (dict_get flds (lit ''length'') (JStr Unknown)) (\<lambda>v.
     bind (sanitize_filename v) (\<lambda>length.
       Inr (join (lit '' - '')
              [name, authors_s, hack_type, difficulty, length,
               unquote original_filename]))))))))))) = Inr s"
    by (rule bind_InrE)
  from r1 obtain name where s1: "sanitize_filename v1 = Inr name"
    and r2: "bind (dict_get item_data (lit ''authors'') (JArr [])) (\<lambda>authors.
     bind (authors_str authors) (\<lambda>authors_s.
     bind (dict_get item_data (lit ''fields'') (JObj [])) (\<lambda>flds.
     bind (dict_get flds (lit ''type'') (JStr Unknown)) (\<lambda>v.
     bind (sanitize_filename v) (\<lambda>hack_type.
     bind (dict_get flds (lit ''difficulty'') (JStr Unknown)) (\<lambda>v.
     bind (sanitize_filename v) (\<lambda>difficulty.
     bind (dict_get flds (lit ''length'') (JStr Unknown)) (\<lambda>v.
     bind (sanitize_filename v) (\<lambda>length.
       Inr (join (lit '' - '')
              [name, authors_s, hack_type, difficulty, length,
               unquote original_filename])))))))))) = Inr s"
    by (rule bind_InrE)
  from r2 obtain av where g2: "dict_get item_data (lit ''authors'') (JArr []) = Inr av"
    and r3: "bind (authors_str av) (\<lambda>authors_s.
     bind (dict_get item_data (lit ''fields'') (JObj [])) (\<lambda>flds.
     bind (dict_get flds (lit ''type'') (JStr Unknown)) (\<lambda>v.
     bind (sanitize_filename v) (\<lambda>hack_type.
     bind (dict_get flds (lit ''difficulty'') (JStr Unknown)) (\<lambda>v.
     bind (sanitize_filename v) (\<lambda>difficulty.
     bind (dict_get flds (lit ''length'') (JStr Unknown)) (\<lambda>v.
     bind (sanitize_filename v) (\<lambda>length.
       Inr (join (lit '' - '')
              [name, authors_s, hack_type, difficulty, length,
               unquote original_filename]))))))))) = Inr s"
    by (rule bind_InrE)
  from r3 obtain authors where s2: "authors_str av = Inr authors"
    and r4: "bind (dict_get item_data (lit ''fields'') (JObj [])) (\<lambda>flds.
     bind (dict_get flds (lit ''type'') (JStr Unknown)) (\<lambda>v.
     bind (sanitize_filename v) (\<lambda>hack_type.
     bind (dict_get flds (lit ''difficulty'') (JStr Unknown)) (\<lambda>v.
     bind (sanitize_filename v) (\<lambda>difficulty.
     bind (dict_get flds (lit ''length'') (JStr Unknown)) (\<lambda>v.
     bind (sanitize_filename v) (\<lambda>length.
       Inr (join (lit '' - '')
              [name, authors, hack_type, difficulty, length,
               unquote original_filename])))))))) = Inr s"
    by (rule bind_InrE)
  from r4 obtain flds where g3: "dict_get item_data (lit ''fields'') (JObj []) = Inr flds"
    and r5: "bind (dict_get flds (lit ''type'') (JStr Unknown)) (\<lambda>v.
     bind (sanitize_filename v) (\<lambda>hack_type.
     bind (dict_get flds (lit ''difficulty'') (JStr Unknown)) (\<lambda>v.
     bind (sanitize_filename v) (\<lambda>difficulty.
     bind (dict_get flds (lit ''length'') (JStr Unknown)) (\<lambda>v.
     bind (sanitize_filename v) (\<lambda>length.
       Inr (join (lit '' - '')
              [name, authors, hack_type, difficulty, length,
               unquote original_filename]))))))) = Inr s"
    by (rule bind_InrE)
  from r5 obtain v2 where g4: "dict_get flds (lit ''type'') (JStr Unknown) = Inr v2"
    and r6: "bind (sanitize_filename v2) (\<lambda>hack_type.
     bind (dict_get flds (lit ''difficulty'') (JStr Unknown)) (\<lambda>v.
     bind (sanitize_filename v) (\<lambda>difficulty.
     bind (dict_get flds (lit ''length'') (JStr Unknown)) (\<lambda>v.
     bind (sanitize_filename v) (\<lambda>length.
       Inr (join (lit '' - '')
              [name, authors, hack_type, difficulty, length,
               unquote original_filename])))))) = Inr s"
    by (rule bind_InrE)
  from r6 obtain hack_type where s4: "sanitize_filename v2 = Inr hack_type"
    and r7: "bind (dict_get flds (lit ''difficulty'') (JStr Unknown)) (\<lambda>v.
     bind (sanitize_filename v) (\<lambda>difficulty.
     bind (dict_get flds (lit ''length'') (JStr Unknown)) (\<lambda>v.
     bind (sanitize_filename v) (\<lambda>length.
       Inr (join (lit '' - '')
              [name, authors, hack_type, difficulty, length,
               unquote original_filename]))))) = Inr s"
    by (rule bind_InrE)
  from r7 obtain v3 where g5: "dict_get flds (lit ''difficulty'') (JStr Unknown) = Inr v3"
    and r8: "bind (sanitize_filename v3) (\<lambda>difficulty.
     bind (dict_get flds (lit ''length'') (JStr Unknown)) (\<lambda>v.
     bind (sanitize_filename v) (\<lambda>length.
       Inr (join (lit '' - '')
              [name, authors, hack_type, difficulty, length,
               unquote original_filename])))) = Inr s"
    by (rule bind_InrE)
  from r8 obtain difficulty where s5: "sanitize_filename v3 = Inr difficulty"
    and r9: "bind (dict_get flds (lit ''length'') (JStr Unknown)) (\<lambda>v.
     bind (sanitize_filename v) (\<lambda>length.
       Inr (join (lit '' - '')
              [name, authors, hack_type, difficulty, length,
               unquote original_filename]))) = Inr s"
    by (rule bind_InrE)
  from r9 obtain v4 where g6: "dict_get flds (lit ''length'') (JStr Unknown) = Inr v4"
    and r10: "bind (sanitize_filename v4) (\<lambda>length.
       Inr (join (lit '' - '')
              [name, authors, hack_type, difficulty, length,
               unquote original_filename])) = Inr s"
    by (rule bind_InrE)
  from r10 obtain len where s6: "sanitize_filename v4 = Inr len"
    and s: "Inr (join (lit '' - '')
              [name, authors, hack_type, difficulty, len,
               unquote original_filename]) = (Inr s :: exn + pystr)"
    by (rule bind_InrE)
  have "s = join (lit '' - '')
              [name, authors, hack_type, difficulty, len, unquote original_filename]"
    using s by simp
  moreover have "absent item_data ''name'' \<longrightarrow> name = Unknown"
    using absent_name [OF _ g1 s1] by blast
  moreover have "absent item_data ''authors'' \<longrightarrow> authors = Unknown"
    using absent_authors [OF _ g2 s2] by blast
  moreover have "absent_field item_data ''type'' \<longrightarrow> hack_type = Unknown"
    using absent_field_value [OF _ g3 g4 s4] by blast
  moreover have "absent_field item_data ''difficulty'' \<longrightarrow> difficulty = Unknown"
    using absent_field_value [OF _ g3 g5 s5] by blast
  moreover have "absent_field item_data ''length'' \<longrightarrow> len = Unknown"
    using absent_field_value [OF _ g3 g6 s6] by blast
  ultimately show ?thesis
    by blast
qed

lemma example_composite:
  "format_composite example_metadata (lit ''Cool%20Hack.zip'') =
     Inr (lit ''Cool Hack - Unknown - Kaizo Light - Unknown - Unknown - Cool Hack.zip'')"
  by (simp add: format_composite_def example_metadata_def lit_def authors_str_def Unknown_def
        illegal_char_def is_sep_def is_space_def strip_def unquote_def cont_def)

text \<open>
  C6. \<open>format_filename\<close> never raises. Metadata whose present fields have the
  catalog's types gives the composite name; in a composite name every absent field is
  the placeholder \<open>Unknown\<close>; and when the composite construction raises, the result
  is the sanitized decoded original filename, which always exists.
\<close>

theorem format_filename_never_raises:
  "(\<exists>s. format_filename item_data original_filename = Inr s)
   \<and> (well_typed item_data \<longrightarrow> (\<exists>s. format_composite item_data original_filename = Inr s))
   \<and> (\<forall>s. format_composite item_data original_filename = Inr s \<longrightarrow>
         format_filename item_data original_filename = Inr s
         \<and> (\<exists>name authors hack_type difficulty len.
               s = join (lit '' - '')
                     [name, authors, hack_type, difficulty, len, unquote original_filename]
             \<and> (absent item_data ''name'' \<longrightarrow> name = Unknown)
             \<and> (absent item_data ''authors'' \<longrightarrow> authors = Unknown)
             \<and> (absent_field item_data ''type'' \<longrightarrow> hack_type = Unknown)
             \<and> (absent_field item_data ''difficulty'' \<longrightarrow> difficulty = Unknown)
             \<and> (absent_field item_data ''length'' \<longrightarrow> len = Unknown)))
   \<and> (\<forall>e. format_composite item_data original_filename = Inl e \<longrightarrow>
         format_filename item_data original_filename =
           sanitize_filename (JStr (unquote original_filename))
         \<and> (\<exists>s. sanitize_filename (JStr (unquote original_filename)) = Inr s))"
proof (intro conjI allI impI)
  show "\<exists>s. format_filename item_data original_filename = Inr s"
    by (rule format_filename_returns)
next
  assume "well_typed item_data"
  then show "\<exists>s. format_composite item_data original_filename = Inr s"
    by (rule format_composite_well_typed)
next
  fix s assume "format_composite item_data original_filename = Inr s"
  then show "format_filename item_data original_filename = Inr s"
    by (simp add: format_filename_def)
next
  fix s assume "format_composite item_data original_filename = Inr s"
  then show "\<exists>name authors hack_type difficulty len.
               s = join (lit '' - '')
                     [name, authors, hack_type, difficulty, len, unquote original_filename]
             \<and> (absent item_data ''name'' \<longrightarrow> name = Unknown)
             \<and> (absent item_data ''authors'' \<longrightarrow> authors = Unknown)
             \<and> (absent_field item_data ''type'' \<longrightarrow> hack_type = Unknown)
             \<and> (absent_field item_data ''difficulty'' \<longrightarrow> difficulty = Unknown)
             \<and> (absent_field item_data ''length'' \<longrightarrow> len = Unknown)"
    by (rule format_composite_placeholders)
next
  fix e assume "format_composite item_data original_filename = Inl e"
  then show "format_filename item_data original_filename =
           sanitize_filename (JStr (unquote original_filename))"
    by (simp add: format_filename_def)
next
  show "\<exists>s. sanitize_filename (JStr (unquote original_filename)) = Inr s"
    by simp
qed

theorem format_filename_never_raises_witness:
  "format_filename example_metadata (lit ''Cool%20Hack.zip'') =
     Inr (lit ''Cool Hack - Unknown - Kaizo Light - Unknown - Unknown - Cool Hack.zip'')"
  using format_filename_never_raises [of example_metadata "lit ''Cool%20Hack.zip''"]
    example_composite
  by blast

section \<open>Properties of \<open>replace\<close>\<close>

lemma contains_iff:
  "contains s t \<longleftrightarrow> (\<exists>a b. s = a @ t @ b)"
proof (induction s)
  case Nil
  then show ?case by auto
next
  case (Cons c s)
  show ?case
  proof
    assume "contains (c # s) t"
    then consider "startswith (c # s) t" | "contains s t"
      by auto
    then show "\<exists>a b. c # s = a @ t @ b"
    proof cases
      case 1
      then obtain r where "c # s = t @ r"
        by (auto simp: startswith_iff)
      then have "c # s = [] @ t @ r" by simp
      then show ?thesis by blast
    next
      case 2
      with Cons.IH obtain a b where "s = a @ t @ b" by blast
      then have "c # s = (c # a) @ t @ b" by simp
      then show ?thesis by blast
    qed
  next
    assume "\<exists>a b. c # s = a @ t @ b"
    then obtain a b where ab: "c # s = a @ t @ b" by blast
    show "contains (c # s) t"
    proof (cases a)
      case Nil
      with ab have "startswith (c # s) t"
        by (auto simp: startswith_iff)
      then show ?thesis by simp
    next
      case (Cons d a')
      with ab have "s = a' @ t @ b" by simp
      with Cons.IH have "contains s t" by blast
      then show ?thesis by simp
    qed
  qed
qed

lemma startswith_append_long:
  assumes "startswith (xs @ ys) t" and "length t \<le> length xs"
  shows "startswith xs t"
proof -
  from assms(1) obtain r where r: "xs @ ys = t @ r"
    by (auto simp: startswith_iff)
  have "take (length t) (xs @ ys) = take (length t) xs"
    using assms(2) by simp
  moreover have "take (length t) (xs @ ys) = t"
    using r by simp
  ultimately have "xs = t @ drop (length t) xs"
    by (metis append_take_drop_id)
  then show ?thesis
    unfolding startswith_iff by blast
qed

lemma startswith_refl: "startswith t t"
  by (simp add: startswith_iff)

lemma replace_from_suffix:
  assumes "old \<noteq> []" and "\<not> contains (stem @ butlast old) old"
  shows "replace_from (stem @ old) old new = stem @ new"
  using assms(2)
proof (induction stem)
  case Nil
  from assms(1) obtain a t where old: "old = a # t"
    by (cases old) auto
  have "startswith (a # t) (a # t)"
    by (rule startswith_refl)
  then show ?case
    using old by simp
next
  case (Cons c stem)
  from Cons.prems have ns: "\<not> startswith (c # stem @ butlast old) old"
    and nc: "\<not> contains (stem @ butlast old) old"
    by auto
  have "\<not> startswith (c # stem @ old) old"
  proof
    assume "startswith (c # stem @ old) old"
    then have "startswith ((c # stem @ butlast old) @ [last old]) old"
      using assms(1) by simp
    moreover have "length old \<le> length (c # stem @ butlast old)"
      by simp
    ultimately have "startswith (c # stem @ butlast old) old"
      by (rule startswith_append_long)
    with ns show False ..
  qed
  with Cons.IH [OF nc] show ?case
    by simp
qed

lemma replace_suffix_only:
  assumes "old \<noteq> []" and "\<not> contains (stem @ butlast old) old"
  shows "replace (stem @ old) old new = stem @ new"
  using assms by (simp add: replace_def replace_from_suffix)

text \<open>A dot and three letters overlap themselves nowhere.\<close>

lemma not_contains_ext:
  assumes "\<not> contains stem [0x2E, x, y, z]" and "x \<noteq> 0x2E" and "y \<noteq> 0x2E" and "z \<noteq> 0x2E"
  shows "\<not> contains (stem @ [0x2E, x, y]) [0x2E, x, y, z]"
  using assms(1)
proof (induction stem)
  case Nil
  then show ?case by simp
next
  case (Cons c stem)
  then have ns: "\<not> startswith (c # stem) [0x2E, x, y, z]"
    and nc: "\<not> contains stem [0x2E, x, y, z]"
    by auto
  have "\<not> startswith (c # stem @ [0x2E, x, y]) [0x2E, x, y, z]"
  proof (cases stem)
    case Nil
    then show ?thesis using assms(2) by auto
  next
    case (Cons d s1)
    note c1 = this
    show ?thesis
    proof (cases s1)
      case Nil
      then show ?thesis using c1 assms(3) by auto
    next
      case (Cons e s2)
      note c2 = this
      show ?thesis
      proof (cases s2)
        case Nil
        then show ?thesis using c1 c2 assms(4) by auto
      next
        case (Cons f s3)
        then show ?thesis using c1 c2 ns by auto
      qed
    qed
  qed
  with Cons.IH [OF nc] show ?case
    by simp
qed

lemma replace_bps_suffix:
  assumes "\<not> contains stem (lit ''.bps'')"
  shows "replace (stem @ lit ''.bps'') (lit ''.bps'') new = stem @ new"
proof -
  have "\<not> contains (stem @ [0x2E, 0x62, 0x70]) [0x2E, 0x62, 0x70, 0x73]"
    using assms by (intro not_contains_ext) (simp_all add: lit_def)
  then have "\<not> contains (stem @ butlast (lit ''.bps'')) (lit ''.bps'')"
    by (simp add: lit_def)
  then show ?thesis
    by (intro replace_suffix_only) (simp add: lit_def)
qed

section \<open>Properties of the patch applier\<close>

text \<open>
  C2, as stated, fails: \<open>str.replace\<close> rewrites every \<open>.bps\<close> of the filename, not
  only its suffix. A patch named after a hack whose title holds \<open>.bps\<close> gets an
  output path that is not the suffix replacement.
\<close>

theorem patch_output_is_not_suffix_replacement:
  "last (patch_cmd (lit ''bps/My.bps hack - x.bps'') (lit ''patched'') (lit ''./flips'')
           (lit ''clean.smc''))
     = lit ''patched/My.smc hack - x.smc''
   \<and> path_join (lit ''patched'')
       (suffix_replaced (basename (lit ''bps/My.bps hack - x.bps'')) (lit ''.bps'') (lit ''.smc''))
     = lit ''patched/My.bps hack - x.smc''"
  by (simp add: patch_cmd_def basename_def split_last_def replace_def path_join_def
        endswith_def suffix_replaced_def lit_def)

text \<open>
  C2, amended. The command is the tool, \<open>-a\<close>, the patch, the base image and the
  output path; the output path is the patch's filename with every \<open>.bps\<close> replaced by
  \<open>.smc\<close>, under \<open>patched_dir\<close>, which is the suffix replacement when \<open>.bps\<close>
  occurs only as the suffix. The result is \<open>True\<close> exactly when the process ends with
  return code 0; another return code gives \<open>False\<close> and logs the standard error; an
  exception of the invocation gives \<open>False\<close> and logs the exception.
\<close>

theorem patch_bps_file_contract:
  "patch_cmd bps_path patched_dir flips_path clean_rom =
     [flips_path, lit ''-a'', bps_path, clean_rom,
      path_join patched_dir (replace (basename bps_path) (lit ''.bps'') (lit ''.smc''))]
   \<and> (basename bps_path = stem @ lit ''.bps'' \<and> \<not> contains stem (lit ''.bps'') \<longrightarrow>
        last (patch_cmd bps_path patched_dir flips_path clean_rom) =
          path_join patched_dir (stem @ lit ''.smc''))
   \<and> (fst (patch_bps_file bps_path patched_dir flips_path clean_rom run) \<longleftrightarrow>
        (\<exists>err. run (patch_cmd bps_path patched_dir flips_path clean_rom) = Inr (0, err)))
   \<and> (\<forall>returncode err.
        run (patch_cmd bps_path patched_dir flips_path clean_rom) = Inr (returncode, err)
          \<and> returncode \<noteq> 0 \<longrightarrow>
        patch_bps_file bps_path patched_dir flips_path clean_rom run =
          (False, [(DEBUG, lit ''Patching: '' @ basename bps_path),
                   (ERROR, lit ''Failed to patch '' @ basename bps_path @ lit '': '' @ err)]))
   \<and> (\<forall>e. run (patch_cmd bps_path patched_dir flips_path clean_rom) = Inl e \<longrightarrow>
        patch_bps_file bps_path patched_dir flips_path clean_rom run =
          (False, [(DEBUG, lit ''Patching: '' @ basename bps_path),
                   (ERROR, lit ''Error patching '' @ bps_path @ lit '': '' @ exn_str e)]))"
proof (intro conjI allI impI)
  show "patch_cmd bps_path patched_dir flips_path clean_rom =
     [flips_path, lit ''-a'', bps_path, clean_rom,
      path_join patched_dir (replace (basename bps_path) (lit ''.bps'') (lit ''.smc''))]"
    by (simp add: patch_cmd_def Let_def)
next
  assume "basename bps_path = stem @ lit ''.bps'' \<and> \<not> contains stem (lit ''.bps'')"
  then show "last (patch_cmd bps_path patched_dir flips_path clean_rom) =
          path_join patched_dir (stem @ lit ''.smc'')"
    by (simp add: patch_cmd_def Let_def replace_bps_suffix)
next
  show "fst (patch_bps_file bps_path patched_dir flips_path clean_rom run) \<longleftrightarrow>
        (\<exists>err. run (patch_cmd bps_path patched_dir flips_path clean_rom) = Inr (0, err))"
    by (cases "run (patch_cmd bps_path patched_dir flips_path clean_rom)")
       (auto simp: patch_bps_file_def Let_def split: if_splits)
next
  fix returncode err
  assume "run (patch_cmd bps_path patched_dir flips_path clean_rom) = Inr (returncode, err)
          \<and> returncode \<noteq> 0"
  then show "patch_bps_file bps_path patched_dir flips_path clean_rom run =
          (False, [(DEBUG, lit ''Patching: '' @ basename bps_path),
                   (ERROR, lit ''Failed to patch '' @ basename bps_path @ lit '': '' @ err)])"
    by (simp add: patch_bps_file_def Let_def)
next
  fix e
  assume "run (patch_cmd bps_path patched_dir flips_path clean_rom) = Inl e"
  then show "patch_bps_file bps_path patched_dir flips_path clean_rom run =
          (False, [(DEBUG, lit ''Patching: '' @ basename bps_path),
                   (ERROR, lit ''Error patching '' @ bps_path @ lit '': '' @ exn_str e)])"
    by (simp add: patch_bps_file_def Let_def)
qed

theorem patch_bps_file_contract_witness:
  "last (patch_cmd (lit ''bps/hack.bps'') (lit ''patched'') (lit ''./flips'') (lit ''clean.smc''))
     = path_join (lit ''patched'') (lit ''hack'' @ lit ''.smc'')
   \<and> patch_bps_file (lit ''bps/hack.bps'') (lit ''patched'') (lit ''./flips'') (lit ''clean.smc'')
       (\<lambda>cmd. Inr (1, lit ''not a BPS patch''))
     = (False, [(DEBUG, lit ''Patching: '' @ basename (lit ''bps/hack.bps'')),
                (ERROR, lit ''Failed to patch '' @ basename (lit ''bps/hack.bps'') @ lit '': ''
                   @ lit ''not a BPS patch'')])"
proof -
  have b: "basename (lit ''bps/hack.bps'') = lit ''hack'' @ lit ''.bps''"
    by (simp add: basename_def split_last_def lit_def)
  have c: "\<not> contains (lit ''hack'') (lit ''.bps'')"
    by (simp add: lit_def)
  have r: "(\<lambda>cmd. Inr (1, lit ''not a BPS patch'') :: exn + int \<times> pystr)
             (patch_cmd (lit ''bps/hack.bps'') (lit ''patched'') (lit ''./flips'') (lit ''clean.smc''))
           = Inr (1, lit ''not a BPS patch'') \<and> (1 :: int) \<noteq> 0"
    by simp
  from patch_bps_file_contract
    [of "lit ''bps/hack.bps''" "lit ''patched''" "lit ''./flips''" "lit ''clean.smc''"
        "lit ''hack''" "\<lambda>cmd. Inr (1, lit ''not a BPS patch'')"]
    b c r
  show ?thesis
    by blast
qed

section \<open>Properties of the extracted filenames\<close>

lemma replace_from_length:
  "length (replace_from s old new) + occurrences s old * length old =
   length s + occurrences s old * length new"
proof (induction s old new rule: replace_from.induct)
  case (1 old new)
  then show ?case by simp
next
  case (2 a s old new)
  show ?case
  proof (cases "old \<noteq> [] \<and> startswith (a # s) old")
    case True
    then obtain r where r: "a # s = old @ r"
      by (auto simp: startswith_iff)
    then have d: "drop (length old) (a # s) = r" and l: "length (a # s) = length old + length r"
      by (simp_all del: drop_Suc_Cons)
    from 2(1) [OF True] d have
      "length (replace_from r old new) + occurrences r old * length old =
       length r + occurrences r old * length new"
      by simp
    moreover have "replace_from (a # s) old new = new @ replace_from r old new"
      using True d by (simp del: drop_Suc_Cons)
    moreover have "occurrences (a # s) old = Suc (occurrences r old)"
      using True d by (simp del: drop_Suc_Cons)
    ultimately show ?thesis
      using l by (simp del: replace_from.simps occurrences.simps)
  next
    case False
    with 2(2) [OF False] show ?thesis
      by auto
  qed
qed

lemma contains_occurrences:
  assumes "old \<noteq> []"
  shows "contains s old \<Longrightarrow> 0 < occurrences s old"
proof (induction s)
  case Nil
  with assms show ?case by simp
next
  case (Cons a s)
  with assms show ?case by auto
qed

lemma replace_from_same_length:
  assumes "old \<noteq> []" and "contains s old"
    and "replace_from s old n1 = replace_from s old n2"
  shows "length n1 = length n2"
proof -
  have "length (replace_from s old n1) = length (replace_from s old n2)"
    using assms(3) by simp
  then have "occurrences s old * length n1 = occurrences s old * length n2"
    using replace_from_length [of s old n1] replace_from_length [of s old n2]
    by linarith
  moreover have "0 < occurrences s old"
    using assms(1,2) by (rule contains_occurrences)
  ultimately show ?thesis
    by simp
qed

lemma replace_from_inj:
  assumes "old \<noteq> []"
  shows "contains s old \<Longrightarrow> replace_from s old n1 = replace_from s old n2 \<Longrightarrow> n1 = n2"
proof (induction s)
  case Nil
  with assms show ?case by simp
next
  case (Cons a s)
  show ?case
  proof (cases "startswith (a # s) old")
    case True
    have "length n1 = length n2"
      using replace_from_same_length [OF assms Cons.prems] .
    moreover from True assms Cons.prems(2) have
      "n1 @ replace_from (drop (length old) (a # s)) old n1 =
       n2 @ replace_from (drop (length old) (a # s)) old n2"
      by (simp del: drop_Suc_Cons)
    ultimately show ?thesis
      by simp
  next
    case False
    with Cons.prems have "contains s old" and "replace_from s old n1 = replace_from s old n2"
      by auto
    then show ?thesis by (rule Cons.IH)
  qed
qed

lemma replace_inj:
  assumes "contains s old" and "old \<noteq> []" and "replace s old n1 = replace s old n2"
  shows "n1 = n2"
  using assms replace_from_inj [of old s n1 n2] by (simp add: replace_def)

lemma contains_nonempty: "contains s t \<Longrightarrow> t \<noteq> [] \<Longrightarrow> s \<noteq> []"
  by (cases s) auto

lemma new_bps_name_eq_iff:
  assumes "n \<noteq> 1" and "contains decoded (lit ''.zip'')" and "contains base_name decoded"
  shows "new_bps_name base_name decoded n c1 = new_bps_name base_name decoded n c2
         \<longleftrightarrow> get_short_hash c1 = get_short_hash c2"
proof
  assume eq: "new_bps_name base_name decoded n c1 = new_bps_name base_name decoded n c2"
  have z: "lit ''.zip'' \<noteq> []"
    by (simp add: lit_def)
  with assms(2) have d: "decoded \<noteq> []"
    by (rule contains_nonempty)
  from eq assms(1) have
    "replace base_name decoded
       (replace decoded (lit ''.zip'') (lit ''_'' @ get_short_hash c1 @ lit ''.bps'')) =
     replace base_name decoded
       (replace decoded (lit ''.zip'') (lit ''_'' @ get_short_hash c2 @ lit ''.bps''))"
    by (simp add: new_bps_name_def)
  from replace_inj [OF assms(3) d this] have
    "replace decoded (lit ''.zip'') (lit ''_'' @ get_short_hash c1 @ lit ''.bps'') =
     replace decoded (lit ''.zip'') (lit ''_'' @ get_short_hash c2 @ lit ''.bps'')" .
  from replace_inj [OF assms(2) z this] show "get_short_hash c1 = get_short_hash c2"
    by simp
next
  assume "get_short_hash c1 = get_short_hash c2"
  then show "new_bps_name base_name decoded n c1 = new_bps_name base_name decoded n c2"
    by (simp add: new_bps_name_def)
qed

lemma distinct_map_cong:
  assumes "\<And>x y. f x = f y \<longleftrightarrow> g x = g y"
  shows "distinct (map f xs) \<longleftrightarrow> distinct (map g xs)"
proof (induction xs)
  case Nil
  then show ?case by simp
next
  case (Cons x xs)
  have "f x \<in> f ` set xs \<longleftrightarrow> g x \<in> g ` set xs"
    using assms by (auto simp: image_iff)
  with Cons show ?case by simp
qed

lemma length_md5_digest: "length (md5_digest msg) = 16"
  by (simp add: md5_digest_def word_le_def split: prod.splits)

lemma length_md5_hexdigest: "length (md5_hexdigest msg) = 32"
proof -
  have "length (concat (map hex_byte bs)) = 2 * length bs" for bs
    by (induction bs) (simp_all add: hex_byte_def)
  then show ?thesis
    by (simp add: md5_hexdigest_def length_md5_digest)
qed

lemma hex_digit_lower:
  "d < 16 \<Longrightarrow> hex_digit d \<in> set (lit ''0123456789abcdef'')"
proof -
  assume "d < 16"
  then have "d = 0 \<or> d = 1 \<or> d = 2 \<or> d = 3 \<or> d = 4 \<or> d = 5 \<or> d = 6 \<or> d = 7 \<or> d = 8
      \<or> d = 9 \<or> d = 10 \<or> d = 11 \<or> d = 12 \<or> d = 13 \<or> d = 14 \<or> d = 15"
    by arith
  then show ?thesis
    by (auto simp: hex_digit_def lit_def)
qed

lemma md5_hexdigest_chars:
  "x \<in> set (md5_hexdigest msg) \<Longrightarrow> x \<in> set (lit ''0123456789abcdef'')"
proof -
  assume "x \<in> set (md5_hexdigest msg)"
  then obtain b where "x \<in> set (hex_byte b)"
    by (auto simp: md5_hexdigest_def)
  moreover have "unat b div 16 < 16" "unat b mod 16 < 16"
    using unsigned_less [of b, where ?'a = nat] by (simp_all add: less_mult_imp_div_less)
  ultimately show ?thesis
    using hex_digit_lower by (auto simp: hex_byte_def)
qed

lemma get_short_hash_shape:
  "length (get_short_hash c) = 6 \<and> (\<forall>x \<in> set (get_short_hash c). x \<in> set (lit ''0123456789abcdef''))"
  using md5_hexdigest_chars [of _ c]
  by (auto simp: get_short_hash_def length_md5_hexdigest dest: in_set_takeD)

lemma join_last_contains:
  "contains (join sep [a, b, c, d, e, f]) f"
proof -
  have "join sep [a, b, c, d, e, f] = (a @ sep @ b @ sep @ c @ sep @ d @ sep @ e @ sep) @ f @ []"
    by simp
  then show ?thesis
    unfolding contains_iff by blast
qed

lemma composite_contains_decoded:
  assumes "format_composite item_data original_filename = Inr base_name"
  shows "contains base_name (unquote original_filename)"
  using format_composite_placeholders [OF assms] join_last_contains by auto

lemma replace_zip_suffix:
  assumes "\<not> contains stem (lit ''.zip'')"
  shows "replace (stem @ lit ''.zip'') (lit ''.zip'') new = stem @ new"
proof -
  have "\<not> contains (stem @ [0x2E, 0x7A, 0x69]) [0x2E, 0x7A, 0x69, 0x70]"
    using assms by (intro not_contains_ext) (simp_all add: lit_def)
  then have "\<not> contains (stem @ butlast (lit ''.zip'')) (lit ''.zip'')"
    by (simp add: lit_def)
  then show ?thesis
    by (intro replace_suffix_only) (simp add: lit_def)
qed

lemma new_bps_name_shape:
  assumes "decoded = stem @ lit ''.zip''" and "\<not> contains stem (lit ''.zip'')"
    and "base_name = pre @ decoded" and "\<not> contains (pre @ butlast decoded) decoded"
  shows "new_bps_name base_name decoded n c =
           pre @ stem @ (if n = 1 then lit ''.bps''
                         else lit ''_'' @ get_short_hash c @ lit ''.bps'')"
proof -
  have d: "decoded \<noteq> []"
    using assms(1) by (simp add: lit_def)
  have "replace base_name decoded new = pre @ new" for new
    unfolding assms(3) using d assms(4) by (rule replace_suffix_only)
  moreover have "replace decoded (lit ''.zip'') new = stem @ new" for new
    unfolding assms(1) using assms(2) by (rule replace_zip_suffix)
  ultimately show ?thesis
    by (simp add: new_bps_name_def)
qed

lemma example_hash_1: "get_short_hash [0x08, 0xEB] = lit ''2e856b''"
  by code_simp

lemma example_hash_2: "get_short_hash [0x1C, 0xD5] = lit ''2e856b''"
  by code_simp

text \<open>
  C1, as stated, fails: the suffix is the first six hexadecimal digits of the MD5 digest,
  and two contents of equal length can share them. The two-byte contents \<open>08 eb\<close> and
  \<open>1c d5\<close> both hash to \<open>2e856b...\<close>; an archive holding them as its two
  \<open>.bps\<close> members is extracted to one and the same path, twice.
\<close>

theorem colliding_hash_prefixes_share_a_filename:
  "bps_files (fst (download_and_extract_bps (JObj example_item1)
      (JStr (lit ''https://host/first.zip'')) (lit ''zips'') (lit ''bps'')
      (download (example_env (Downloaded 200 (Inr [0x50, 0x4B]))
         (Inr [(lit ''a.bps'', Inr [0x08, 0xEB]), (lit ''b.bps'', Inr [0x1C, 0xD5])])))))
   = [lit ''bps/First - Unknown - Unknown - Unknown - Unknown - first_2e856b.bps'',
      lit ''bps/First - Unknown - Unknown - Unknown - Unknown - first_2e856b.bps'']"
proof -
  let ?members = "[(lit ''a.bps'', Inr [0x08 :: 8 word, 0xEB]), (lit ''b.bps'', Inr [0x1C, 0xD5])]"
  let ?env = "download (example_env (Downloaded 200 (Inr [0x50, 0x4B])) (Inr ?members))"
  let ?base = "lit ''First - Unknown - Unknown - Unknown - Unknown - first.zip''"
  have sp: "split_last 0x2F (lit ''https://host/first.zip'') = lit ''first.zip''"
    by (simp add: split_last_def lit_def)
  have uq: "unquote (lit ''first.zip'') = lit ''first.zip''"
    by (simp add: unquote_def lit_def)
  have "format_composite (JObj example_item1) (lit ''first.zip'') = Inr ?base"
    by (simp add: format_composite_def example_item1_def lit_def authors_str_def Unknown_def
          illegal_char_def is_sep_def is_space_def strip_def unquote_def)
  then have ff: "format_filename (JObj example_item1) (split_last 0x2F (lit ''https://host/first.zip''))
                   = Inr ?base"
    by (simp add: format_filename_def sp)
  have sel: "?members = filter (\<lambda>m. is_bps_member (fst m)) ?members"
    by (simp add: is_bps_member_def endswith_def lower_def lower_char_def lit_def)
  have h1: "http ?env = Downloaded 200 (Inr [0x50, 0x4B])"
    and h2: "save_zip ?env = None"
    and h3: "zip_open ?env = Inr ?members"
    and h5: "\<forall>p. write_bps ?env p = None"
    by (simp_all add: example_env_def)
  have h4: "\<forall>m \<in> set ?members. is_bps_member (fst m) \<longrightarrow> (\<exists>c. snd m = Inr c)"
    by simp
  have n: "new_bps_name ?base (lit ''first.zip'') 2 c =
             lit ''First - Unknown - Unknown - Unknown - Unknown - first_''
               @ get_short_hash c @ lit ''.bps''" for c
    by (simp add: new_bps_name_def replace_def lit_def)
  have files: "bps_files (fst (download_and_extract_bps (JObj example_item1)
      (JStr (lit ''https://host/first.zip'')) (lit ''zips'') (lit ''bps'') ?env)) =
      [path_join (lit ''bps'') (new_bps_name ?base (lit ''first.zip'') 2 [0x08, 0xEB]),
       path_join (lit ''bps'') (new_bps_name ?base (lit ''first.zip'') 2 [0x1C, 0xD5])]"
    using download_and_extract_ok [OF h1 h2 h3 h4 h5 ff sel refl,
      where bd = "lit ''bps''" and zd = "lit ''zips''"]
    by (simp add: sp uq numeral_2_eq_2)
  show ?thesis
    unfolding files n example_hash_1 example_hash_2
    by (simp add: path_join_def endswith_def lit_def)
qed

text \<open>
  C1, amended. With one \<open>.bps\<close> member the name does not depend on the content: it
  carries no hash. When the decoded filename ends in its only \<open>.zip\<close> and ends the
  base name, the name is the base name with \<open>.zip\<close> replaced by \<open>.bps\<close>, and with
  several members by an underscore, the hash and \<open>.bps\<close>. The hash is six lowercase
  hexadecimal digits. With several members, a decoded filename containing \<open>.zip\<close> and
  a base name containing the decoded filename (every composite name does), two members
  get the same name exactly when their hashes are equal, so the names are pairwise
  distinct exactly when the hashes are.
\<close>

theorem bps_names_distinct_up_to_hash:
  "new_bps_name base_name decoded 1 c1 = new_bps_name base_name decoded 1 c2
   \<and> (decoded = stem @ lit ''.zip'' \<and> \<not> contains stem (lit ''.zip'')
        \<and> base_name = pre @ decoded \<and> \<not> contains (pre @ butlast decoded) decoded \<longrightarrow>
        new_bps_name base_name decoded 1 c1 = pre @ stem @ lit ''.bps''
        \<and> (n \<noteq> 1 \<longrightarrow> new_bps_name base_name decoded n c1 =
              pre @ stem @ lit ''_'' @ get_short_hash c1 @ lit ''.bps''))
   \<and> length (get_short_hash c1) = 6
   \<and> (\<forall>x \<in> set (get_short_hash c1). x \<in> set (lit ''0123456789abcdef''))
   \<and> (n \<noteq> 1 \<and> contains decoded (lit ''.zip'') \<and> contains base_name decoded \<longrightarrow>
        (new_bps_name base_name decoded n c1 = new_bps_name base_name decoded n c2
           \<longleftrightarrow> get_short_hash c1 = get_short_hash c2)
        \<and> (distinct (map (new_bps_name base_name decoded n) cs)
           \<longleftrightarrow> distinct (map get_short_hash cs)))
   \<and> (format_composite item_data original_filename = Inr base_name \<longrightarrow>
        contains base_name (unquote original_filename))"
proof (intro conjI impI)
  show "new_bps_name base_name decoded 1 c1 = new_bps_name base_name decoded 1 c2"
    by (simp add: new_bps_name_def)
next
  assume "decoded = stem @ lit ''.zip'' \<and> \<not> contains stem (lit ''.zip'')
        \<and> base_name = pre @ decoded \<and> \<not> contains (pre @ butlast decoded) decoded"
  then have a: "decoded = stem @ lit ''.zip''" "\<not> contains stem (lit ''.zip'')"
    "base_name = pre @ decoded" "\<not> contains (pre @ butlast decoded) decoded"
    by blast+
  show "new_bps_name base_name decoded 1 c1 = pre @ stem @ lit ''.bps''"
    using new_bps_name_shape [OF a, of 1 c1] by simp
  assume "n \<noteq> 1"
  then show "new_bps_name base_name decoded n c1 =
              pre @ stem @ lit ''_'' @ get_short_hash c1 @ lit ''.bps''"
    using new_bps_name_shape [OF a, of n c1] by simp
next
  show "length (get_short_hash c1) = 6"
    using get_short_hash_shape by blast
next
  show "\<forall>x \<in> set (get_short_hash c1). x \<in> set (lit ''0123456789abcdef'')"
    using get_short_hash_shape by blast
next
  assume a: "n \<noteq> 1 \<and> contains decoded (lit ''.zip'') \<and> contains base_name decoded"
  then show "new_bps_name base_name decoded n c1 = new_bps_name base_name decoded n c2
           \<longleftrightarrow> get_short_hash c1 = get_short_hash c2"
    using new_bps_name_eq_iff by blast
  from a have "\<And>x y. new_bps_name base_name decoded n x = new_bps_name base_name decoded n y
                 \<longleftrightarrow> get_short_hash x = get_short_hash y"
    using new_bps_name_eq_iff by blast
  then show "distinct (map (new_bps_name base_name decoded n) cs)
           \<longleftrightarrow> distinct (map get_short_hash cs)"
    by (rule distinct_map_cong)
next
  assume "format_composite item_data original_filename = Inr base_name"
  then show "contains base_name (unquote original_filename)"
    by (rule composite_contains_decoded)
qed

theorem bps_names_distinct_up_to_hash_witness:
  "new_bps_name (lit ''N - h.zip'') (lit ''h.zip'') 2 [1] =
     lit ''N - '' @ lit ''h'' @ lit ''_'' @ get_short_hash [1] @ lit ''.bps''
   \<and> (new_bps_name (lit ''N - h.zip'') (lit ''h.zip'') 2 [1] =
      new_bps_name (lit ''N - h.zip'') (lit ''h.zip'') 2 [2]
        \<longleftrightarrow> get_short_hash [1] = get_short_hash [2])"
proof -
  have a: "lit ''h.zip'' = lit ''h'' @ lit ''.zip'' \<and> \<not> contains (lit ''h'') (lit ''.zip'')
        \<and> lit ''N - h.zip'' = lit ''N - '' @ lit ''h.zip''
        \<and> \<not> contains (lit ''N - '' @ butlast (lit ''h.zip'')) (lit ''h.zip'')"
    by (simp add: lit_def)
  have b: "(2 :: nat) \<noteq> 1 \<and> contains (lit ''h.zip'') (lit ''.zip'')
        \<and> contains (lit ''N - h.zip'') (lit ''h.zip'')"
    by (simp add: lit_def)
  from bps_names_distinct_up_to_hash
    [of "lit ''N - h.zip''" "lit ''h.zip''" "[1]" "[2]" "lit ''h''" "lit ''N - ''" 2] a b
  show ?thesis
    by blast
qed

end
